theory Spec2Isabelle
  imports Main
begin

section \<open>Errors, logging and the native host\<close>

text \<open>
  The exceptions of \<^verbatim>\<open>shared/exception/exception\<close> that the bookmark service throws,
  together with the \<^verbatim>\<open>TypeError\<close> the JavaScript runtime raises when a property of
  \<^verbatim>\<open>undefined\<close> is read. The failed-native-write exceptions carry the cause reported by
  the host. \<open>HostFailure\<close> is a rejection of a host call that the service does not wrap.
  \<open>UndefinedChild\<close> is not an exception: it stands for the one outcome in which the
  service resolves with a child array that holds \<^verbatim>\<open>undefined\<close>, which no list of
  bookmarks represents.
\<close>

datatype error =
    BookmarkNotFoundException
  | ContainerNotFoundException
  | ContainerChangedException
  | NativeBookmarkNotFoundException
  | FailedCreateNativeBookmarksException string
  | FailedUpdateNativeBookmarksException string
  | FailedRemoveNativeBookmarksException string
  | AmbiguousSyncRequestException
  | NotImplementedException
  | TypeError
  | HostFailure string
  | UndefinedChild

text \<open>\<^verbatim>\<open>BookmarkMetadata\<close> of \<^verbatim>\<open>bookmark.interface\<close>.\<close>

record BookmarkMetadata =
  m_title :: "string option"
  m_url :: "string option"
  m_description :: "string option"
  m_tags :: "string list option"
  m_isSeparator :: bool

text \<open>
  \<^verbatim>\<open>NativeBookmarks.BookmarkTreeNode\<close>, \<^verbatim>\<open>CreateDetails\<close> and \<^verbatim>\<open>UpdateChangesType\<close> of the
  WebExtension bookmarks API. An optional property is an \<open>option\<close>.
\<close>

datatype NativeBookmark =
  NativeBookmark (n_id: string) (n_parentId: "string option") (n_index: "int option")
    (n_title: string) (n_url: "string option") (n_children: "NativeBookmark list option")

record CreateDetails =
  cd_index :: "int option"
  cd_parentId :: "string option"
  cd_title :: string
  cd_url :: "string option"

record UpdateChanges =
  uc_title :: "string option"
  uc_url :: "string option"

record MoveDestination =
  mv_index :: "int option"
  mv_parentId :: "string option"

text \<open>The write calls of \<^verbatim>\<open>browser.bookmarks\<close>, as the service issues them.\<close>

datatype native_call =
    Create CreateDetails
  | Update string UpdateChanges
  | Remove string
  | RemoveTree string
  | Move string MoveDestination

text \<open>The messages handed to \<^verbatim>\<open>logSvc\<close>, one constructor per message of the source.\<close>

datatype log_entry =
    Info_UrlUnsupported string
  | Warning_FailedCreate CreateDetails
  | Info_FailedModify BookmarkMetadata
  | Info_FailedRemove string
  | Info_NotSyncingToolbar
  | Info_NoIdMappingFound
  | Info_NoIdMappingsFound

text \<open>\<^verbatim>\<open>BookmarkIdMapping\<close> of \<^verbatim>\<open>bookmark-id-mapper.interface\<close>.\<close>

record BookmarkIdMapping =
  syncedId :: int
  nativeId :: string

text \<open>
  The state the service acts on: the write calls issued to the host so far (in order),
  the log, whether the native event listeners are attached, the persisted settings
  \<^verbatim>\<open>syncEnabled\<close> and \<^verbatim>\<open>syncBookmarksToolbar\<close>, and the persisted id-mapping table.
\<close>

record world =
  calls :: "native_call list"
  logs :: "log_entry list"
  listeners :: bool
  syncEnabled :: bool
  syncBookmarksToolbar :: bool
  idMappings :: "BookmarkIdMapping list"

text \<open>
  The host is external. It answers a write call as a function of the calls issued before
  it and of the call itself: \<open>Inl cause\<close> is a rejected promise, \<open>Inr node\<close> the node
  the host resolves with (for \<^verbatim>\<open>remove\<close> the resolved value is not used).
\<close>

type_synonym host = "native_call list \<Rightarrow> native_call \<Rightarrow> string + NativeBookmark"

text \<open>
  The read calls \<^verbatim>\<open>get\<close> and \<^verbatim>\<open>getSubTree\<close> of \<^verbatim>\<open>browser.bookmarks\<close>, answered by the host
  in the same way.
\<close>

record native_reads =
  bookmarks_get :: "native_call list \<Rightarrow> string \<Rightarrow> string + NativeBookmark list"
  bookmarks_getSubTree :: "native_call list \<Rightarrow> string \<Rightarrow> string + NativeBookmark list"

text \<open>\<^verbatim>\<open>platformSvc\<close>: the placeholder new-tab url and the supported-url test.\<close>

record platform =
  getNewTabUrl :: string
  urlIsSupported :: "string \<Rightarrow> bool"

text \<open>
  \<^verbatim>\<open>Globals.Bookmarks\<close>: the two reserved separator titles. The constants are declared
  in \<^verbatim>\<open>global-shared.constants\<close>; they are taken as parameters.
\<close>

record globals =
  HorizontalSeparatorTitle :: string
  VerticalSeparatorTitle :: string

subsection \<open>Promises over the world\<close>

text \<open>
  A promise chain of the source runs to completion before the next one starts, so a
  promise is a function from the world to an outcome (rejected with an error, or
  resolved with a value) and the new world.
\<close>

type_synonym 'a promise = "world \<Rightarrow> (error + 'a) \<times> world"

definition resolve :: "'a \<Rightarrow> 'a promise" where
  "resolve x w = (Inr x, w)"

definition reject :: "error \<Rightarrow> 'a promise" where
  "reject e w = (Inl e, w)"

text \<open>\<^verbatim>\<open>p.then(f)\<close>\<close>

definition then_p :: "'a promise \<Rightarrow> ('a \<Rightarrow> 'b promise) \<Rightarrow> 'b promise" where
  "then_p p f w = (case p w of (Inl e, w') \<Rightarrow> (Inl e, w') | (Inr x, w') \<Rightarrow> f x w')"

text \<open>
  \<^verbatim>\<open>p.finally(c)\<close> of \<^verbatim>\<open>$q\<close>: \<open>c\<close> runs on both outcomes; the outcome of \<open>p\<close> is kept
  unless \<open>c\<close> itself rejects.
\<close>

definition finally_p :: "'a promise \<Rightarrow> unit promise \<Rightarrow> 'a promise" where
  "finally_p p c w =
     (case p w of (r, w') \<Rightarrow> (case c w' of (Inl e, w'') \<Rightarrow> (Inl e, w'') | (Inr _, w'') \<Rightarrow> (r, w'')))"

text \<open>
  \<^verbatim>\<open>$q.all\<close> over promises created by mapping over an array: every promise is started,
  in order, whether or not an earlier one rejects; the result holds all values, or is the
  rejection of the first promise that rejected.
\<close>

fun all_p :: "'a promise list \<Rightarrow> 'a list promise" where
  "all_p [] w = (Inr [], w)"
| "all_p (p # ps) w =
     (case p w of
        (r, w1) \<Rightarrow>
          (case all_p ps w1 of
             (rs, w2) \<Rightarrow>
               (case r of
                  Inl e \<Rightarrow> (Inl e, w2)
                | Inr x \<Rightarrow> (case rs of Inl e \<Rightarrow> (Inl e, w2) | Inr xs \<Rightarrow> (Inr (x # xs), w2)))))"

text \<open>A write call: it is recorded, and the host answers it.\<close>

definition native_write :: "host \<Rightarrow> native_call \<Rightarrow> world \<Rightarrow> (string + NativeBookmark) \<times> world" where
  "native_write h c w = (h (calls w) c, w\<lparr>calls := calls w @ [c]\<rparr>)"

definition hostp :: "host \<Rightarrow> native_call \<Rightarrow> NativeBookmark promise" where
  "hostp h c w = (case native_write h c w of (Inl cause, w') \<Rightarrow> (Inl (HostFailure cause), w')
                                            | (Inr n, w') \<Rightarrow> (Inr n, w'))"

definition logp :: "log_entry \<Rightarrow> world \<Rightarrow> world" where
  "logp e w = w\<lparr>logs := logs w @ [e]\<rparr>"

definition readp :: "(native_call list \<Rightarrow> string \<Rightarrow> string + NativeBookmark list) \<Rightarrow> string
                       \<Rightarrow> NativeBookmark list promise" where
  "readp rd ident w = (case rd (calls w) ident of Inl cause \<Rightarrow> (Inl (HostFailure cause), w)
                                                | Inr ns \<Rightarrow> (Inr ns, w))"

subsection \<open>The id-mapping store\<close>

text \<open>
  Modelled from the spec: \<^verbatim>\<open>BookmarkIdMapperService\<close> is not under src. The table is a
  sequence of \<open>{syncedId, nativeId}\<close> records. \<open>createMapping\<close> is "pure value
  construction"; \<open>get\<close> looks a mapping up "by either key" (the operations modelled
  here pass a native id); \<open>add\<close> "performs no implicit merge or overwrite"; \<open>remove\<close>
  takes a set of ids "for bulk descendant cleanup" (the service passes synced ids).
\<close>

definition createMapping :: "int \<Rightarrow> string \<Rightarrow> BookmarkIdMapping" where
  "createMapping s n = \<lparr>syncedId = s, nativeId = n\<rparr>"

definition bookmarkIdMapperSvc_get :: "string option \<Rightarrow> BookmarkIdMapping option promise" where
  "bookmarkIdMapperSvc_get nid w =
     (Inr (case nid of None \<Rightarrow> None | Some n \<Rightarrow> find (\<lambda>m. nativeId m = n) (idMappings w)), w)"

definition bookmarkIdMapperSvc_add :: "BookmarkIdMapping \<Rightarrow> unit promise" where
  "bookmarkIdMapperSvc_add m w = (Inr (), w\<lparr>idMappings := idMappings w @ [m]\<rparr>)"

definition bookmarkIdMapperSvc_remove :: "int list \<Rightarrow> unit promise" where
  "bookmarkIdMapperSvc_remove syncedIds w =
     (Inr (), w\<lparr>idMappings := filter (\<lambda>m. syncedId m \<notin> set syncedIds) (idMappings w)\<rparr>)"

section \<open>Containers and listeners\<close>

text \<open>
  Modelled from the spec: the enum \<^verbatim>\<open>BookmarkContainer\<close> of \<^verbatim>\<open>bookmark.enum\<close> is not
  under src. The spec names the four reserved root folders menu, mobile, other and
  toolbar; a container's name is the title of its canonical root folder and its key in
  the table of native container ids.
\<close>

datatype BookmarkContainer = Menu | Mobile | Other | Toolbar

fun containerName :: "BookmarkContainer \<Rightarrow> string" where
  "containerName Menu = ''menu''"
| "containerName Mobile = ''mobile''"
| "containerName Other = ''other''"
| "containerName Toolbar = ''toolbar''"

text \<open>
  \<^verbatim>\<open>getNativeContainerIds\<close> is abstract in the service (each platform implements it).
  Its result, the table from container name to native root id, is a parameter: an
  association list in key order, with no entry for a container the host lacks.
\<close>

type_synonym container_ids = "(string \<times> string) list"

text \<open>
  \<^verbatim>\<open>isNativeBookmarkInToolbarContainer\<close>: strict equality of the node's parent id and the
  table's toolbar entry; two absent values are equal, as \<^verbatim>\<open>undefined === undefined\<close> is.
\<close>

definition isNativeBookmarkInToolbarContainer :: "container_ids \<Rightarrow> NativeBookmark \<Rightarrow> bool" where
  "isNativeBookmarkInToolbarContainer nativeContainerIds nativeBookmark =
     (n_parentId nativeBookmark = map_of nativeContainerIds (containerName Toolbar))"

text \<open>
  Modelled from the spec: \<^verbatim>\<open>disableEventListeners\<close> and \<^verbatim>\<open>enableEventListeners\<close> are
  abstract in the service and implemented per platform, outside src. Disabling detaches
  the listeners. Re-enabling "respects the externally persisted sync enabled flag (if the
  user disabled sync mid-pass, leave listeners off)".
\<close>

definition disableEventListeners :: "unit promise" where
  "disableEventListeners w = (Inr (), w\<lparr>listeners := False\<rparr>)"

definition enableEventListeners :: "unit promise" where
  "enableEventListeners w = (Inr (), w\<lparr>listeners := syncEnabled w\<rparr>)"

section \<open>The canonical tree\<close>

text \<open>
  \<^verbatim>\<open>Bookmark\<close> of \<^verbatim>\<open>bookmark.interface\<close>: an integer id, optional title, url, description
  and tags, and an optional array of children (the service tests \<^verbatim>\<open>children\<close> for
  \<^verbatim>\<open>undefined\<close> before reading it).
\<close>

datatype Bookmark =
  Bookmark (b_id: int) (b_title: "string option") (b_url: "string option")
    (b_description: "string option") (b_tags: "string list option")
    (b_children: "Bookmark list option")

fun setChildren :: "Bookmark list option \<Rightarrow> Bookmark \<Rightarrow> Bookmark" where
  "setChildren ch (Bookmark bid t u d tg _) = Bookmark bid t u d tg ch"

fun setId :: "int \<Rightarrow> Bookmark \<Rightarrow> Bookmark" where
  "setId i (Bookmark _ t u d tg ch) = Bookmark i t u d tg ch"

record UpdateBookmarksResult =
  r_bookmark :: Bookmark
  r_bookmarks :: "Bookmark list"

subsection \<open>The bookmark helper service\<close>

text \<open>
  Modelled from the spec: \<^verbatim>\<open>bookmarkHelperSvc.eachBookmark\<close> is not under src. It visits
  every bookmark of a tree, a node before its descendants and siblings in order; the
  model returns the bookmarks in the order visited.
\<close>

fun eachBookmark :: "Bookmark list \<Rightarrow> Bookmark list" where
  "eachBookmark [] = []"
| "eachBookmark (Bookmark bid t u d tg ch # bs) =
     Bookmark bid t u d tg ch
       # (case ch of None \<Rightarrow> [] | Some cs \<Rightarrow> eachBookmark cs) @ eachBookmark bs"

text \<open>
  Modelled from the spec: \<^verbatim>\<open>bookmarkHelperSvc.findBookmarkById\<close> is not under src. It
  returns the bookmark of the tree with the given id (ids are unique within a tree), or
  \<^verbatim>\<open>undefined\<close>; the model returns the first one in visiting order.
\<close>

fun findBookmarkById :: "int \<Rightarrow> Bookmark list \<Rightarrow> Bookmark option" where
  "findBookmarkById i [] = None"
| "findBookmarkById i (Bookmark bid t u d tg ch # bs) =
     (if bid = i then Some (Bookmark bid t u d tg ch)
      else case (case ch of None \<Rightarrow> None | Some cs \<Rightarrow> findBookmarkById i cs) of
             Some r \<Rightarrow> Some r
           | None \<Rightarrow> findBookmarkById i bs)"

text \<open>
  \<^verbatim>\<open>findBookmarkById\<close> returns a reference into the tree it searched, and the service
  assigns through it. \<open>updateFound i f bookmarks\<close> is the tree after the object that
  \<open>findBookmarkById i bookmarks\<close> returns has been changed by \<open>f\<close>.
\<close>

fun updateFound :: "int \<Rightarrow> (Bookmark \<Rightarrow> Bookmark) \<Rightarrow> Bookmark list \<Rightarrow> Bookmark list" where
  "updateFound i f [] = []"
| "updateFound i f (Bookmark bid t u d tg ch # bs) =
     (if bid = i then f (Bookmark bid t u d tg ch) # bs
      else case ch of
             None \<Rightarrow> Bookmark bid t u d tg ch # updateFound i f bs
           | Some cs \<Rightarrow>
               if findBookmarkById i cs \<noteq> None
               then Bookmark bid t u d tg (Some (updateFound i f cs)) # bs
               else Bookmark bid t u d tg ch # updateFound i f bs)"

text \<open>
  Modelled from the spec: \<^verbatim>\<open>bookmarkHelperSvc.getNewBookmarkId\<close> is not under src. Ids
  are unique within a tree; the new id is one more than the largest id of the tree and
  of the ids already taken (and 1 when there is none).
\<close>

definition getNewBookmarkId :: "Bookmark list \<Rightarrow> int list \<Rightarrow> int" where
  "getNewBookmarkId bookmarks takenIds =
     fold max (map b_id (eachBookmark bookmarks) @ takenIds) 0 + 1"

text \<open>
  Modelled from the spec: \<^verbatim>\<open>bookmarkHelperSvc.newBookmark\<close> is not under src. A bookmark
  carries the given title, url, description and tags; one without url is a folder and
  has an (empty) list of children; a separator has "no url/semantic title". The id is
  passed in: the source either has \<open>newBookmark\<close> generate it from the tree it is given
  or assigns it right after the call.
\<close>

definition newBookmark ::
  "int \<Rightarrow> string option \<Rightarrow> string option \<Rightarrow> string option \<Rightarrow> string list option \<Rightarrow> bool \<Rightarrow> Bookmark" where
  "newBookmark ident title url description tags isSeparator =
     (if isSeparator then Bookmark ident None None None None None
      else case url of
             None \<Rightarrow> Bookmark ident title None description tags (Some [])
           | Some u \<Rightarrow> Bookmark ident title (Some u) description tags None)"

subsection \<open>Synced-tree mutator\<close>

text \<open>
  \<^verbatim>\<open>Array.prototype.splice(index, 0, x)\<close>: a negative start counts from the end, and the
  start is clamped into the array.
\<close>

definition spliceStart :: "int \<Rightarrow> nat \<Rightarrow> nat" where
  "spliceStart index len =
     (if index < 0 then nat (max (int len + index) 0) else min (nat index) len)"

definition splice :: "int \<Rightarrow> 'a \<Rightarrow> 'a list \<Rightarrow> 'a list" where
  "splice index x xs =
     (let k = spliceStart index (length xs) in take k xs @ x # drop k xs)"

text \<open>
  \<^verbatim>\<open>addBookmark\<close>. The parent is looked up in the deep copy of the tree, which has the
  value of the tree; a missing parent throws \<open>BookmarkNotFoundException\<close>. The new
  bookmark takes its id from the tree passed in. Splicing into the children of a parent
  that has no child array is a \<open>TypeError\<close> of the runtime.
\<close>

definition addBookmark ::
  "BookmarkMetadata \<Rightarrow> int \<Rightarrow> int \<Rightarrow> Bookmark list \<Rightarrow> error + UpdateBookmarksResult" where
  "addBookmark bookmarkMetadata parentId index bookmarks =
     (case findBookmarkById parentId bookmarks of
        None \<Rightarrow> Inl BookmarkNotFoundException
      | Some parent \<Rightarrow>
          let bookmark = newBookmark (getNewBookmarkId bookmarks [])
                (m_title bookmarkMetadata) (m_url bookmarkMetadata)
                (m_description bookmarkMetadata) (m_tags bookmarkMetadata)
                (m_isSeparator bookmarkMetadata)
          in (case b_children parent of
                None \<Rightarrow> Inl TypeError
              | Some cs \<Rightarrow>
                  Inr \<lparr>r_bookmark = bookmark,
                       r_bookmarks =
                         updateFound parentId (setChildren (Some (splice index bookmark cs))) bookmarks\<rparr>))"

subsection \<open>Further helpers of the bookmark helper service\<close>

text \<open>
  Modelled from the spec: \<^verbatim>\<open>bookmarkHelperSvc.bookmarkIsContainer\<close> is not under src. A
  container is a bookmark "whose title is one of the reserved names".
\<close>

definition bookmarkIsContainer :: "string \<Rightarrow> bool" where
  "bookmarkIsContainer title \<longleftrightarrow> title \<in> set (map containerName [Menu, Mobile, Other, Toolbar])"

text \<open>
  Modelled from the spec: \<^verbatim>\<open>bookmarkHelperSvc.getContainer\<close> is not under src. It returns
  the root-level bookmark titled with the container name. The service passes a third
  argument \<^verbatim>\<open>true\<close> where it needs the container's id at once; the model takes it to ask
  for the container to be created at the end of the root level when it is missing. The
  array is changed in place, so the tree is returned along with the container.
\<close>

definition getContainer :: "string \<Rightarrow> Bookmark list \<Rightarrow> bool \<Rightarrow> Bookmark option \<times> Bookmark list" where
  "getContainer name bookmarks createIfNotPresent =
     (case find (\<lambda>x. b_title x = Some name) bookmarks of
        Some container \<Rightarrow> (Some container, bookmarks)
      | None \<Rightarrow>
          if createIfNotPresent
          then (let container = newBookmark (getNewBookmarkId bookmarks []) (Some name) None None None False
                in (Some container, bookmarks @ [container]))
          else (None, bookmarks))"

text \<open>
  Modelled from the spec: \<^verbatim>\<open>bookmarkHelperSvc.getContainerByBookmarkId\<close> is not under src.
  It returns the container (root-level bookmark) in whose subtree the bookmark with the
  given id lies.
\<close>

definition getContainerByBookmarkId :: "int \<Rightarrow> Bookmark list \<Rightarrow> Bookmark option" where
  "getContainerByBookmarkId i bookmarks = find (\<lambda>c. findBookmarkById i [c] \<noteq> None) bookmarks"

text \<open>
  Modelled from the spec: \<^verbatim>\<open>bookmarkHelperSvc.removeBookmarkById\<close> is not under src. It
  resolves with the tree without the bookmark of the given id and its subtree. The
  service calls it only with the id of a bookmark it has just found in the same tree.
\<close>

fun removeBookmarkById :: "int \<Rightarrow> Bookmark list \<Rightarrow> Bookmark list" where
  "removeBookmarkById i [] = []"
| "removeBookmarkById i (Bookmark bid t u d tg ch # bs) =
     (if bid = i then removeBookmarkById i bs
      else Bookmark bid t u d tg (case ch of None \<Rightarrow> None | Some cs \<Rightarrow> Some (removeBookmarkById i cs))
             # removeBookmarkById i bs)"

text \<open>
  Modelled from the spec: \<^verbatim>\<open>bookmarkHelperSvc.extractBookmarkMetadata\<close> is not under src.
  It reads title, url, description and tags off a canonical or a native bookmark (a
  native one has neither description nor tags).
\<close>

definition extractBookmarkMetadata :: "Bookmark \<Rightarrow> BookmarkMetadata" where
  "extractBookmarkMetadata b =
     \<lparr>m_title = b_title b, m_url = b_url b, m_description = b_description b, m_tags = b_tags b,
      m_isSeparator = False\<rparr>"




subsection \<open>Change classifier\<close>

text \<open>The change data of \<^verbatim>\<open>bookmark.interface\<close>, a closed union over the five change types.\<close>

record MoveNativeBookmarkChangeData =
  mc_id :: string
  mc_index :: int
  mc_oldIndex :: int
  mc_oldParentId :: string
  mc_parentId :: string

record ReorderNativeBookmarkChangeData =
  rc_childIds :: "string list"
  rc_parentId :: string


text \<open>
  \<^verbatim>\<open>getContainerNameFromNativeId\<close>: other and toolbar are always candidates, menu and
  mobile only when their native id is truthy; the first candidate whose native id is
  strictly equal to the given one names the container, and the empty string says there is
  none.
\<close>

definition getContainerNameFromNativeId :: "container_ids \<Rightarrow> string option \<Rightarrow> string" where
  "getContainerNameFromNativeId nativeContainerIds nativeBookmarkId =
     (let menuBookmarksId = map_of nativeContainerIds (containerName Menu);
          mobileBookmarksId = map_of nativeContainerIds (containerName Mobile);
          otherBookmarksId = map_of nativeContainerIds (containerName Other);
          toolbarBookmarksId = map_of nativeContainerIds (containerName Toolbar);
          nativeContainers =
            [(otherBookmarksId, containerName Other), (toolbarBookmarksId, containerName Toolbar)]
            @ (if menuBookmarksId \<noteq> None \<and> menuBookmarksId \<noteq> Some []
               then [(menuBookmarksId, containerName Menu)] else [])
            @ (if mobileBookmarksId \<noteq> None \<and> mobileBookmarksId \<noteq> Some []
               then [(mobileBookmarksId, containerName Mobile)] else [])
      in case find (\<lambda>x. fst x = nativeBookmarkId) nativeContainers of
           Some result \<Rightarrow> snd result
         | None \<Rightarrow> [])"

text \<open>
  \<^verbatim>\<open>getIdsFromDescendants\<close>: the ids of all descendants, in visiting order; none when
  the child array is missing or empty.
\<close>

definition getIdsFromDescendants :: "Bookmark \<Rightarrow> int list" where
  "getIdsFromDescendants bookmark =
     (case b_children bookmark of
        None \<Rightarrow> []
      | Some cs \<Rightarrow> if length cs = 0 then [] else map b_id (eachBookmark cs))"

text \<open>
  \<^verbatim>\<open>checkIfBookmarkChangeShouldBeSynced\<close>: the container of the changed bookmark is looked
  up in the tree given; the change is not synced when that container is the toolbar and
  the setting is off.
\<close>

definition checkIfBookmarkChangeShouldBeSynced :: "Bookmark \<Rightarrow> Bookmark list \<Rightarrow> bool promise" where
  "checkIfBookmarkChangeShouldBeSynced changedBookmark bookmarks w =
     (case getContainerByBookmarkId (b_id changedBookmark) bookmarks of
        None \<Rightarrow> (Inl ContainerNotFoundException, w)
      | Some container \<Rightarrow>
          if b_title container = Some (containerName Toolbar) \<and> \<not> syncBookmarksToolbar w
          then (Inr False, logp Info_NotSyncingToolbar w)
          else (Inr True, w))"

text \<open>
  \<^verbatim>\<open>wasContainerChanged\<close> is abstract in the service; the platform's answer is a
  parameter \<open>wcc\<close> of the operations that ask it.
\<close>

type_synonym container_check = "NativeBookmark \<Rightarrow> Bookmark list \<Rightarrow> bool"




text \<open>
  \<^verbatim>\<open>processChangeTypeRemoveOnBookmarks\<close>. The sync test is made on the tree before the
  removal. The ids of the descendants are collected, the bookmark is removed once by its
  id, and the mappings of the descendants and of the bookmark are removed afterwards.
\<close>

definition processChangeTypeRemoveOnBookmarks ::
  "container_check \<Rightarrow> Bookmark list \<Rightarrow> NativeBookmark \<Rightarrow> Bookmark list option promise" where
  "processChangeTypeRemoveOnBookmarks wcc bookmarks nativeBookmark =
     (if wcc nativeBookmark bookmarks then reject ContainerChangedException
      else
        then_p (bookmarkIdMapperSvc_get (Some (n_id nativeBookmark))) (\<lambda>idMapping.
          case idMapping of
            None \<Rightarrow> (\<lambda>w. (Inr None, logp Info_NoIdMappingFound w))
          | Some m \<Rightarrow>
              (case findBookmarkById (syncedId m) bookmarks of
                 None \<Rightarrow> reject TypeError
               | Some bookmarkToRemove \<Rightarrow>
                   then_p (checkIfBookmarkChangeShouldBeSynced bookmarkToRemove bookmarks)
                     (\<lambda>syncThisChange.
                        if \<not> syncThisChange then resolve None
                        else
                          (let descendantsIds = getIdsFromDescendants bookmarkToRemove;
                               updatedBookmarks = removeBookmarkById (syncedId m) bookmarks;
                               syncedIds = descendantsIds @ [syncedId m]
                           in then_p (bookmarkIdMapperSvc_remove syncedIds)
                                (\<lambda>_. resolve (Some updatedBookmarks)))))))"

text \<open>
  \<^verbatim>\<open>convertNativeBookmarkToBookmark\<close>: a new id (recorded among the taken ids), a new
  bookmark with the native title and url, and the converted children when the native
  node has any. The taken ids are threaded through the conversion of the children.
\<close>

fun convertNativeBookmarkToBookmark ::
  "NativeBookmark \<Rightarrow> Bookmark list \<Rightarrow> int list \<Rightarrow> Bookmark \<times> int list"
and convertNativeBookmarksToBookmarks ::
  "NativeBookmark list \<Rightarrow> Bookmark list \<Rightarrow> int list \<Rightarrow> Bookmark list \<times> int list" where
  "convertNativeBookmarkToBookmark (NativeBookmark nid pid idx title url ch) bookmarks takenIds =
     (let ident = getNewBookmarkId bookmarks takenIds;
          takenIds1 = takenIds @ [ident];
          bookmark = newBookmark ident (Some title) url None None False
      in case ch of
           None \<Rightarrow> (bookmark, takenIds1)
         | Some cs \<Rightarrow>
             if length cs > 0
             then (case convertNativeBookmarksToBookmarks cs bookmarks takenIds1 of
                     (children, takenIds2) \<Rightarrow> (setChildren (Some children) bookmark, takenIds2))
             else (bookmark, takenIds1))"
| "convertNativeBookmarksToBookmarks [] bookmarks takenIds = ([], takenIds)"
| "convertNativeBookmarksToBookmarks (n # ns) bookmarks takenIds =
     (case convertNativeBookmarkToBookmark n bookmarks takenIds of
        (b, takenIds1) \<Rightarrow>
          (case convertNativeBookmarksToBookmarks ns bookmarks takenIds1 of
             (bs, takenIds2) \<Rightarrow> (b # bs, takenIds2)))"

text \<open>\<^verbatim>\<open>createBookmarkFromNativeBookmarkId\<close>\<close>

definition createBookmarkFromNativeBookmarkId ::
  "native_reads \<Rightarrow> string \<Rightarrow> Bookmark list \<Rightarrow> Bookmark promise" where
  "createBookmarkFromNativeBookmarkId rd ident bookmarks =
     then_p (readp (bookmarks_get rd) ident) (\<lambda>results.
       case results of
         [] \<Rightarrow> reject NativeBookmarkNotFoundException
       | nativeBookmark # _ \<Rightarrow> resolve (fst (convertNativeBookmarkToBookmark nativeBookmark bookmarks [])))"

text \<open>
  \<^verbatim>\<open>countNativeContainersBeforeIndex\<close>: only the native other root holds container
  folders; there, the children before the index that are containers are counted.
\<close>

definition countNativeContainersBeforeIndex ::
  "native_reads \<Rightarrow> container_ids \<Rightarrow> string \<Rightarrow> int \<Rightarrow> int promise" where
  "countNativeContainersBeforeIndex rd nativeContainerIds parentId index =
     (if Some parentId \<noteq> map_of nativeContainerIds (containerName Other) then resolve 0
      else
        then_p (readp (bookmarks_getSubTree rd) parentId) (\<lambda>subTree.
          case subTree of
            [] \<Rightarrow> reject TypeError
          | root # _ \<Rightarrow>
              (case n_children root of
                 None \<Rightarrow> reject TypeError
               | Some children \<Rightarrow>
                   resolve (int (length (filter
                     (\<lambda>(childIndex, child). int childIndex < index \<and> bookmarkIsContainer (n_title child))
                     (enumerate 0 children)))))))"

text \<open>
  \<^verbatim>\<open>processChangeTypeMoveOnBookmarks\<close>. A moved container is fatal when its parent
  changed and ignored otherwise. Else the mapping of the moved node and the synced id of
  the new parent are resolved; with neither, the move is skipped. The bookmark to remove
  is the mapped one, or one created from the native node. The removal is tested on the
  tree before the move, the addition on the tree after it. The source assigns the old id
  to the bookmark \<open>addBookmark\<close> returned, which is the object spliced into the tree:
  \<open>added\<close> is that bookmark and \<open>addedTo\<close> the tree after the assignment. The pair
  threaded through the last steps is the tree and the flag \<^verbatim>\<open>changesMade\<close>.
\<close>

definition processChangeTypeMoveOnBookmarks ::
  "native_reads \<Rightarrow> container_ids \<Rightarrow> Bookmark list \<Rightarrow> MoveNativeBookmarkChangeData
     \<Rightarrow> Bookmark list option promise" where
  "processChangeTypeMoveOnBookmarks rd nativeContainerIds bookmarks changeData =
     then_p (readp (bookmarks_get rd) (mc_id changeData)) (\<lambda>results.
       case results of
         [] \<Rightarrow> reject TypeError
       | movedBookmark # _ \<Rightarrow>
           if bookmarkIsContainer (n_title movedBookmark)
           then (if mc_oldParentId changeData \<noteq> mc_parentId changeData
                 then reject ContainerChangedException
                 else resolve None)
           else
             then_p (bookmarkIdMapperSvc_get (Some (mc_id changeData))) (\<lambda>movedBookmarkMapping.
             then_p
               (let parentNameAsContainer =
                      getContainerNameFromNativeId nativeContainerIds (Some (mc_parentId changeData)) in
                if parentNameAsContainer \<noteq> []
                then (case getContainer parentNameAsContainer bookmarks True of
                        (None, bookmarks1) \<Rightarrow> reject TypeError
                      | (Some container, bookmarks1) \<Rightarrow> resolve (Some (b_id container), bookmarks1))
                else then_p (bookmarkIdMapperSvc_get (Some (mc_parentId changeData))) (\<lambda>idMapping.
                       resolve (map_option syncedId idMapping, bookmarks)))
               (\<lambda>(parentMapping, bookmarks1).
                  if movedBookmarkMapping = None \<and> parentMapping = None
                  then (\<lambda>w. (Inr None, logp Info_NoIdMappingsFound w))
                  else
                    then_p
                      (case movedBookmarkMapping of
                         None \<Rightarrow> then_p (createBookmarkFromNativeBookmarkId rd (mc_id changeData) bookmarks1)
                                   (\<lambda>b. resolve (Some b))
                       | Some m \<Rightarrow> resolve (findBookmarkById (syncedId m) bookmarks1))
                      (\<lambda>bookmarkToRemove.
                         then_p
                           (case movedBookmarkMapping of
                              None \<Rightarrow> resolve (bookmarks1, False)
                            | Some m \<Rightarrow>
                                (case bookmarkToRemove of
                                   None \<Rightarrow> reject TypeError
                                 | Some b \<Rightarrow>
                                     then_p (checkIfBookmarkChangeShouldBeSynced b bookmarks1)
                                       (\<lambda>syncThisChange.
                                          if \<not> syncThisChange then resolve (bookmarks1, False)
                                          else resolve (removeBookmarkById (syncedId m) bookmarks1, True))))
                           (\<lambda>(bookmarksAfterRemoval, removed).
                              then_p
                                (case parentMapping of
                                   None \<Rightarrow> resolve (bookmarksAfterRemoval, removed)
                                 | Some parentSyncedId \<Rightarrow>
                                     then_p (countNativeContainersBeforeIndex rd nativeContainerIds
                                               (mc_parentId changeData) (mc_index changeData))
                                       (\<lambda>numContainers.
                                          let index = mc_index changeData - numContainers in
                                          case bookmarkToRemove of
                                            None \<Rightarrow> reject TypeError
                                          | Some b \<Rightarrow>
                                              (case addBookmark (extractBookmarkMetadata b) parentSyncedId
                                                      index bookmarksAfterRemoval of
                                                 Inl e \<Rightarrow> reject e
                                               | Inr addBookmarkResult \<Rightarrow>
                                                   let added = setId (b_id b) (r_bookmark addBookmarkResult);
                                                       addedTo = updateFound (b_id (r_bookmark addBookmarkResult))
                                                                   (setId (b_id b)) (r_bookmarks addBookmarkResult)
                                                   in then_p (checkIfBookmarkChangeShouldBeSynced added addedTo)
                                                        (\<lambda>syncThisChange.
                                                           if \<not> syncThisChange
                                                           then resolve (bookmarksAfterRemoval, removed)
                                                           else
                                                             (case movedBookmarkMapping of
                                                                Some _ \<Rightarrow> resolve (addedTo, True)
                                                              | None \<Rightarrow>
                                                                  then_p (bookmarkIdMapperSvc_add
                                                                            (createMapping (b_id added) (mc_id changeData)))
                                                                    (\<lambda>_. resolve (addedTo, True)))))))
                                (\<lambda>(updatedBookmarks, changesMade).
                                   if \<not> changesMade then resolve None
                                   else resolve (Some updatedBookmarks)))))))"

text \<open>
  \<^verbatim>\<open>processChangeTypeChildrenReorderedOnBookmarks\<close> holds a reference to the parent
  bookmark inside the tree and assigns its \<^verbatim>\<open>children\<close>. The reference is to the container
  that \<^verbatim>\<open>getContainer\<close> returns (the first root-level bookmark with that title), or to the
  bookmark that \<open>findBookmarkById\<close> returns for the mapped id.
\<close>

datatype parent_ref = ContainerRef string | MappedRef int

fun updateContainer :: "string \<Rightarrow> (Bookmark \<Rightarrow> Bookmark) \<Rightarrow> Bookmark list \<Rightarrow> Bookmark list" where
  "updateContainer name f [] = []"
| "updateContainer name f (b # bs) =
     (if b_title b = Some name then f b # bs else b # updateContainer name f bs)"

fun deref :: "parent_ref \<Rightarrow> Bookmark list \<Rightarrow> Bookmark option" where
  "deref (ContainerRef name) bookmarks = fst (getContainer name bookmarks False)"
| "deref (MappedRef i) bookmarks = findBookmarkById i bookmarks"

fun assign :: "parent_ref \<Rightarrow> (Bookmark \<Rightarrow> Bookmark) \<Rightarrow> Bookmark list \<Rightarrow> Bookmark list" where
  "assign (ContainerRef name) f bookmarks = updateContainer name f bookmarks"
| "assign (MappedRef i) f bookmarks = updateFound i f bookmarks"

text \<open>
  The first step of \<^verbatim>\<open>processChangeTypeChildrenReorderedOnBookmarks\<close>: the key of the table
  of native container ids whose entry is the parent id names the container; without one
  the parent is looked up in the id mappings, and reading \<^verbatim>\<open>syncedId\<close> of a missing mapping
  is a \<open>TypeError\<close>.
\<close>

definition reorderedParent :: "container_ids \<Rightarrow> ReorderNativeBookmarkChangeData \<Rightarrow> parent_ref promise" where
  "reorderedParent nativeContainerIds changeData =
     (case find (\<lambda>x. map_of nativeContainerIds x = Some (rc_parentId changeData))
                (map fst nativeContainerIds) of
        None \<Rightarrow>
          then_p (bookmarkIdMapperSvc_get (Some (rc_parentId changeData))) (\<lambda>idMapping.
            case idMapping of
              None \<Rightarrow> reject TypeError
            | Some m \<Rightarrow> resolve (MappedRef (syncedId m)))
      | Some name \<Rightarrow> resolve (ContainerRef name))"

text \<open>
  The second step: the mappings of the native child ids are fetched, the missing ones
  filtered out, and the parent's children become, for each remaining synced id in that
  order, the child with that id found among the parent's current children. With no
  synced id left the callback never reads the current children and the new list is
  empty. A synced id that no child has leaves \<^verbatim>\<open>undefined\<close> in the array.
\<close>

definition processChangeTypeChildrenReorderedOnBookmarks ::
  "container_ids \<Rightarrow> Bookmark list \<Rightarrow> ReorderNativeBookmarkChangeData \<Rightarrow> Bookmark list promise" where
  "processChangeTypeChildrenReorderedOnBookmarks nativeContainerIds bookmarks changeData =
     then_p (reorderedParent nativeContainerIds changeData) (\<lambda>parentRef.
       then_p (all_p (map (\<lambda>childId. bookmarkIdMapperSvc_get (Some childId)) (rc_childIds changeData)))
         (\<lambda>idMappings.
            let childIds = map syncedId (List.map_filter (\<lambda>x. x) idMappings) in
            case deref parentRef bookmarks of
              None \<Rightarrow> reject TypeError
            | Some parentBookmark \<Rightarrow>
                if childIds = [] then resolve (assign parentRef (setChildren (Some [])) bookmarks)
                else
                  (case b_children parentBookmark of
                     None \<Rightarrow> reject TypeError
                   | Some cs \<Rightarrow>
                       (case those (map (\<lambda>childId. find (\<lambda>x. b_id x = childId) cs) childIds) of
                          None \<Rightarrow> reject UndefinedChild
                        | Some newChildren \<Rightarrow>
                            resolve (assign parentRef (setChildren (Some newChildren)) bookmarks)))))"


text \<open>
  The synced ids mapped from a sequence of native child ids, in the order of the sequence
  (used to state properties).
\<close>

definition mappedChildIds :: "world \<Rightarrow> string list \<Rightarrow> int list" where
  "mappedChildIds w childIds =
     map syncedId (List.map_filter (\<lambda>c. find (\<lambda>m. nativeId m = c) (idMappings w)) childIds)"

text \<open>The descendants of a bookmark, in visiting order (used to state properties).\<close>

definition descendants :: "Bookmark \<Rightarrow> Bookmark list" where
  "descendants b = (case b_children b of None \<Rightarrow> [] | Some cs \<Rightarrow> eachBookmark cs)"

section \<open>Native-tree mutator\<close>

text \<open>\<^verbatim>\<open>getSupportedUrl\<close>: the url itself, or the new-tab url (logged) when unsupported.\<close>

definition getSupportedUrl :: "platform \<Rightarrow> string option \<Rightarrow> world \<Rightarrow> string \<times> world" where
  "getSupportedUrl p url w =
     (case url of
        None \<Rightarrow> ('''', w)
      | Some u \<Rightarrow>
          if \<not> urlIsSupported p u
          then (getNewTabUrl p, logp (Info_UrlUnsupported u) w)
          else (u, w))"

text \<open>
  \<^verbatim>\<open>createNativeBookmark\<close>: the create details carry index, parent and title; the url
  is set, through \<open>getSupportedUrl\<close>, only when one is given. A rejected create is logged
  and rethrown as \<open>FailedCreateNativeBookmarksException\<close> with the host's cause.
\<close>

definition createNativeBookmark ::
  "platform \<Rightarrow> host \<Rightarrow> string \<Rightarrow> string \<Rightarrow> string option \<Rightarrow> int option \<Rightarrow> NativeBookmark promise" where
  "createNativeBookmark p h parentId title url index w =
     (let info0 = \<lparr>cd_index = index, cd_parentId = Some parentId, cd_title = title, cd_url = None\<rparr>;
          (info, w1) = (case url of
                          None \<Rightarrow> (info0, w)
                        | Some u \<Rightarrow> (case getSupportedUrl p url w of
                                      (su, w') \<Rightarrow> (info0\<lparr>cd_url := Some su\<rparr>, w')))
      in case native_write h (Create info) w1 of
           (Inr n, w2) \<Rightarrow> (Inr n, w2)
         | (Inl cause, w2) \<Rightarrow>
             (Inl (FailedCreateNativeBookmarksException cause), logp (Warning_FailedCreate info) w2))"

text \<open>
  \<^verbatim>\<open>modifyNativeBookmark\<close>: the update info is built from the title alone; the url
  branch tests the url of the update info just built, which is absent.
\<close>

definition modifyNativeBookmark ::
  "platform \<Rightarrow> host \<Rightarrow> string \<Rightarrow> BookmarkMetadata \<Rightarrow> NativeBookmark promise" where
  "modifyNativeBookmark p h ident newMetadata w =
     (let updateInfo0 = \<lparr>uc_title = m_title newMetadata, uc_url = None\<rparr>;
          (updateInfo, w1) = (case uc_url updateInfo0 of
                                None \<Rightarrow> (updateInfo0, w)
                              | Some u \<Rightarrow> (case getSupportedUrl p (uc_url updateInfo0) w of
                                            (su, w') \<Rightarrow> (updateInfo0\<lparr>uc_url := Some su\<rparr>, w')))
      in case native_write h (Update ident updateInfo) w1 of
           (Inr n, w2) \<Rightarrow> (Inr n, w2)
         | (Inl cause, w2) \<Rightarrow>
             (Inl (FailedUpdateNativeBookmarksException cause), logp (Info_FailedModify newMetadata) w2))"

text \<open>
  \<^verbatim>\<open>convertNativeBookmarkToSeparator\<close>. The skip test and the title-only test are the
  source's boolean expressions, with the source's grouping.
\<close>

definition convertNativeBookmarkToSeparator ::
  "globals \<Rightarrow> platform \<Rightarrow> host \<Rightarrow> container_ids \<Rightarrow> NativeBookmark \<Rightarrow> NativeBookmark promise" where
  "convertNativeBookmarkToSeparator g p h nativeContainerIds bookmark =
     (let inToolbar = isNativeBookmarkInToolbarContainer nativeContainerIds bookmark in
      if (n_url bookmark = Some (getNewTabUrl p) \<and> \<not> inToolbar
            \<and> n_title bookmark = HorizontalSeparatorTitle g)
         \<or> (inToolbar \<and> n_title bookmark = VerticalSeparatorTitle g)
      then resolve bookmark
      else
        finally_p
          (then_p disableEventListeners (\<lambda>_.
             let title = (if inToolbar then VerticalSeparatorTitle g else HorizontalSeparatorTitle g) in
             if (\<not> inToolbar \<and> n_title bookmark = VerticalSeparatorTitle g)
                \<or> (inToolbar \<and> n_title bookmark = HorizontalSeparatorTitle g)
             then hostp h (Update (n_id bookmark) \<lparr>uc_title = Some title, uc_url = None\<rparr>)
             else
               let separator = \<lparr>cd_index = n_index bookmark, cd_parentId = n_parentId bookmark,
                                 cd_title = title, cd_url = Some (getNewTabUrl p)\<rparr>
               in then_p (hostp h (Remove (n_id bookmark))) (\<lambda>_. hostp h (Create separator))))
          enableEventListeners)"

subsection \<open>Reordering unsupported containers\<close>

text \<open>
  \<^verbatim>\<open>getNativeBookmarkByTitle\<close>: the first node the host's title search returns, if any;
  no search for an empty title. The search is a read call answered by the host.
\<close>

definition getNativeBookmarkByTitle ::
  "(native_call list \<Rightarrow> string \<Rightarrow> string + NativeBookmark list) \<Rightarrow> string \<Rightarrow> NativeBookmark option promise" where
  "getNativeBookmarkByTitle search title =
     (if title = [] then resolve None
      else then_p (readp search title) (\<lambda>results.
             resolve (case results of [] \<Rightarrow> None | first # _ \<Rightarrow> Some first)))"

text \<open>
  \<^verbatim>\<open>reorderUnsupportedContainers\<close>: each unsupported container that is found natively is
  moved to the front of its parent, to the index of its position among those found. The
  titles of the unsupported containers are a member of the service, set per platform.
\<close>

definition reorderUnsupportedContainers ::
  "host \<Rightarrow> (native_call list \<Rightarrow> string \<Rightarrow> string + NativeBookmark list) \<Rightarrow> string list \<Rightarrow> unit promise" where
  "reorderUnsupportedContainers h search unsupportedContainers =
     then_p (all_p (map (getNativeBookmarkByTitle search) unsupportedContainers)) (\<lambda>results.
       then_p (all_p (map (\<lambda>(index, container).
                             hostp h (Move (n_id container)
                                        \<lparr>mv_index = Some (int index), mv_parentId = n_parentId container\<rparr>))
                          (enumerate 0 (List.map_filter (\<lambda>x. x) results))))
         (\<lambda>_. resolve ()))"

text \<open>
  The last step of \<^verbatim>\<open>processNativeBookmarkEventsQueue\<close>, run once the queue is drained and
  \<^verbatim>\<open>executeSync\<close> has resolved:
  \<^verbatim>\<open>disableEventListeners().then(reorderUnsupportedContainers).then(enableEventListeners)\<close>.
\<close>

definition reorderAfterSync ::
  "host \<Rightarrow> (native_call list \<Rightarrow> string \<Rightarrow> string + NativeBookmark list) \<Rightarrow> string list \<Rightarrow> unit promise" where
  "reorderAfterSync h search unsupportedContainers =
     then_p (then_p disableEventListeners (\<lambda>_. reorderUnsupportedContainers h search unsupportedContainers))
       (\<lambda>_. enableEventListeners)"

subsection \<open>The listeners in \<^verbatim>\<open>background.js\<close>\<close>

text \<open>
  \<^verbatim>\<open>toggleEventListeners\<close> of \<^verbatim>\<open>background.js\<close>: without an argument the persisted
  \<^verbatim>\<open>syncEnabled\<close> value decides, else the argument; the listeners are attached or
  detached accordingly.
\<close>

definition toggleEventListeners :: "bool option \<Rightarrow> unit promise" where
  "toggleEventListeners enable w =
     (let enabled = (case enable of None \<Rightarrow> syncEnabled w | Some e \<Rightarrow> e)
      in if enabled then (Inr (), w\<lparr>listeners := True\<rparr>) else (Inr (), w\<lparr>listeners := False\<rparr>))"

text \<open>
  \<^verbatim>\<open>convertLocalBookmarkToSeparator\<close> of \<^verbatim>\<open>background.js\<close>: the listeners are switched off,
  the node is removed and recreated through the callback API (the create is issued from
  the callback of the remove, and the promise resolves from the callback of the create),
  and the cleanup is \<^verbatim>\<open>toggleEventListeners(true)\<close>. Whether the node is in the toolbar is
  asked of the platform and is a parameter.
\<close>

definition convertLocalBookmarkToSeparator ::
  "globals \<Rightarrow> platform \<Rightarrow> host \<Rightarrow> bool \<Rightarrow> NativeBookmark \<Rightarrow> NativeBookmark option promise" where
  "convertLocalBookmarkToSeparator g p h inToolbar bookmark =
     finally_p
       (then_p (toggleEventListeners (Some False)) (\<lambda>_.
          let title = (if inToolbar then VerticalSeparatorTitle g else HorizontalSeparatorTitle g);
              separator = \<lparr>cd_index = n_index bookmark, cd_parentId = n_parentId bookmark,
                            cd_title = title, cd_url = Some (getNewTabUrl p)\<rparr>
          in (\<lambda>w. case native_write h (Remove (n_id bookmark)) w of
                     (_, w1) \<Rightarrow> (case native_write h (Create separator) w1 of
                                   (Inl _, w2) \<Rightarrow> (Inr None, w2)
                                 | (Inr created, w2) \<Rightarrow> (Inr (Some created), w2)))))
       (toggleEventListeners (Some True))"

section \<open>A store-level model of \<^verbatim>\<open>addBookmark\<close>\<close>

text \<open>
  Whether \<^verbatim>\<open>addBookmark\<close> changes the array it is given is a question about objects and
  references, which the value-level model above cannot ask. Here bookmarks and arrays are
  cells of a store addressed by position: a bookmark object holds the address of its
  array of children, an array holds the addresses of its elements, and allocation appends
  a cell. Traversals of the store carry fuel, and running out of it is the result \<open>None\<close>.
\<close>

type_synonym addr = nat

datatype cell =
    BookmarkObj int "string option" "string option" "string option" "string list option" "addr option"
  | ArrayObj "addr list"

type_synonym heap = "cell list"

definition cellAt :: "heap \<Rightarrow> addr \<Rightarrow> cell option" where
  "cellAt h a = (if a < length h then Some (h ! a) else None)"

definition alloc :: "cell \<Rightarrow> heap \<Rightarrow> addr \<times> heap" where
  "alloc c h = (length h, h @ [c])"

text \<open>
  \<^verbatim>\<open>angular.copy\<close> of an array of bookmarks: a deep copy. The array, each bookmark object
  in it and, through the objects, each array of children are copied into newly allocated
  cells, children first.
\<close>

fun angular_copy :: "nat \<Rightarrow> heap \<Rightarrow> addr \<Rightarrow> (addr \<times> heap) option"
and angular_copy_elems :: "nat \<Rightarrow> heap \<Rightarrow> addr list \<Rightarrow> (addr list \<times> heap) option" where
  "angular_copy 0 h arr = None"
| "angular_copy (Suc n) h arr =
     (case cellAt h arr of
        Some (ArrayObj elems) \<Rightarrow>
          (case angular_copy_elems n h elems of
             None \<Rightarrow> None
           | Some (elems', h1) \<Rightarrow> Some (alloc (ArrayObj elems') h1))
      | _ \<Rightarrow> None)"
| "angular_copy_elems n h [] = Some ([], h)"
| "angular_copy_elems n h (a # as) =
     (case cellAt h a of
        Some (BookmarkObj i t u d tg ch) \<Rightarrow>
          (case (case ch of
                   None \<Rightarrow> Some (None, h)
                 | Some ca \<Rightarrow> (case angular_copy n h ca of
                                None \<Rightarrow> None
                              | Some (ca', h1) \<Rightarrow> Some (Some ca', h1))) of
             None \<Rightarrow> None
           | Some (ch', h1) \<Rightarrow>
               (case alloc (BookmarkObj i t u d tg ch') h1 of
                  (a', h2) \<Rightarrow>
                    (case angular_copy_elems n h2 as of
                       None \<Rightarrow> None
                     | Some (as', h3) \<Rightarrow> Some (a' # as', h3))))
      | _ \<Rightarrow> None)"

text \<open>
  Modelled from the spec: \<^verbatim>\<open>bookmarkHelperSvc.findBookmarkById\<close> is not under src. On the
  store it returns the address of the bookmark object with the given id (\<open>Some None\<close>
  when there is none), searching as \<open>findBookmarkById\<close> above does; it only reads.
\<close>

fun findInArray :: "nat \<Rightarrow> heap \<Rightarrow> int \<Rightarrow> addr \<Rightarrow> addr option option"
and findInElems :: "nat \<Rightarrow> heap \<Rightarrow> int \<Rightarrow> addr list \<Rightarrow> addr option option" where
  "findInArray 0 h i arr = None"
| "findInArray (Suc n) h i arr =
     (case cellAt h arr of
        Some (ArrayObj elems) \<Rightarrow> findInElems n h i elems
      | _ \<Rightarrow> None)"
| "findInElems n h i [] = Some None"
| "findInElems n h i (a # as) =
     (case cellAt h a of
        Some (BookmarkObj bid t u d tg ch) \<Rightarrow>
          if bid = i then Some (Some a)
          else (case (case ch of None \<Rightarrow> Some None | Some ca \<Rightarrow> findInArray n h i ca) of
                  None \<Rightarrow> None
                | Some (Some r) \<Rightarrow> Some (Some r)
                | Some None \<Rightarrow> findInElems n h i as)
      | _ \<Rightarrow> None)"


text \<open>
  Modelled from the spec: \<^verbatim>\<open>bookmarkHelperSvc.newBookmark\<close> is not under src. On the store
  it allocates the bookmark that \<open>newBookmark\<close> above describes, with a new empty array
  for a folder. The id it generates by reading the tree is passed in.
\<close>

definition newBookmarkH :: "int \<Rightarrow> BookmarkMetadata \<Rightarrow> heap \<Rightarrow> addr \<times> heap" where
  "newBookmarkH ident md h =
     (if m_isSeparator md then alloc (BookmarkObj ident None None None None None) h
      else case m_url md of
             None \<Rightarrow>
               (case alloc (ArrayObj []) h of
                  (arr, h1) \<Rightarrow>
                    alloc (BookmarkObj ident (m_title md) None (m_description md) (m_tags md) (Some arr)) h1)
           | Some u \<Rightarrow>
               alloc (BookmarkObj ident (m_title md) (Some u) (m_description md) (m_tags md) None) h)"

text \<open>
  \<^verbatim>\<open>addBookmark\<close> on the store: the tree is copied, the parent is looked up in the copy,
  the new bookmark is created, and \<^verbatim>\<open>parent.children.splice\<close> changes the array of the
  parent found, in place. The result is the addresses of the new bookmark and of the
  copied tree.
\<close>

definition addBookmarkH ::
  "nat \<Rightarrow> int \<Rightarrow> BookmarkMetadata \<Rightarrow> int \<Rightarrow> int \<Rightarrow> addr \<Rightarrow> heap
     \<Rightarrow> (error + addr \<times> addr) option \<times> heap" where
  "addBookmarkH fuel ident bookmarkMetadata parentId index bookmarks h =
     (case angular_copy fuel h bookmarks of
        None \<Rightarrow> (None, h)
      | Some (updatedBookmarks, h1) \<Rightarrow>
          (case findInArray fuel h1 parentId updatedBookmarks of
             None \<Rightarrow> (None, h1)
           | Some None \<Rightarrow> (Some (Inl BookmarkNotFoundException), h1)
           | Some (Some parent) \<Rightarrow>
               (case newBookmarkH ident bookmarkMetadata h1 of
                  (bookmark, h2) \<Rightarrow>
                    (case cellAt h2 parent of
                       Some (BookmarkObj _ _ _ _ _ (Some children)) \<Rightarrow>
                         (case cellAt h2 children of
                            Some (ArrayObj elems) \<Rightarrow>
                              (Some (Inr (bookmark, updatedBookmarks)),
                               h2[children := ArrayObj (splice index bookmark elems)])
                          | _ \<Rightarrow> (Some (Inl TypeError), h2))
                     | _ \<Rightarrow> (Some (Inl TypeError), h2)))))"

text \<open>The tree of bookmarks that an array of the store holds (used to state properties).\<close>

fun treeAt :: "nat \<Rightarrow> heap \<Rightarrow> addr \<Rightarrow> Bookmark list option"
and nodesAt :: "nat \<Rightarrow> heap \<Rightarrow> addr list \<Rightarrow> Bookmark list option" where
  "treeAt 0 h arr = None"
| "treeAt (Suc n) h arr =
     (case cellAt h arr of
        Some (ArrayObj elems) \<Rightarrow> nodesAt n h elems
      | _ \<Rightarrow> None)"
| "nodesAt n h [] = Some []"
| "nodesAt n h (a # as) =
     (case cellAt h a of
        Some (BookmarkObj i t u d tg ch) \<Rightarrow>
          (case (case ch of None \<Rightarrow> Some None | Some ca \<Rightarrow> map_option Some (treeAt n h ca)) of
             None \<Rightarrow> None
           | Some children \<Rightarrow>
               (case nodesAt n h as of
                  None \<Rightarrow> None
                | Some bs \<Rightarrow> Some (Bookmark i t u d tg children # bs)))
      | _ \<Rightarrow> None)"

text \<open>
  The references a cell holds, and stores whose cells from address \<open>k\<close> on refer only to
  cells from \<open>k\<close> on (used in proofs).
\<close>

fun refs :: "cell \<Rightarrow> addr set" where
  "refs (ArrayObj elems) = set elems"
| "refs (BookmarkObj _ _ _ _ _ ch) = set_option ch"

definition closedFrom :: "nat \<Rightarrow> heap \<Rightarrow> bool" where
  "closedFrom k h \<longleftrightarrow> (\<forall>b. k \<le> b \<and> b < length h \<longrightarrow> refs (h ! b) \<subseteq> {k..<length h})"

text \<open>
  The cells that reading the tree of an array visits, the array's own cell first (used in
  proofs: a copy is tree-shaped when no cell is visited twice).
\<close>

fun cellsAt :: "nat \<Rightarrow> heap \<Rightarrow> addr \<Rightarrow> addr list"
and cellsOf :: "nat \<Rightarrow> heap \<Rightarrow> addr list \<Rightarrow> addr list" where
  "cellsAt 0 h arr = [arr]"
| "cellsAt (Suc n) h arr =
     arr # (case cellAt h arr of Some (ArrayObj elems) \<Rightarrow> cellsOf n h elems | _ \<Rightarrow> [])"
| "cellsOf n h [] = []"
| "cellsOf n h (a # as) =
     a # (case cellAt h a of
            Some (BookmarkObj i t u d tg (Some ca)) \<Rightarrow> cellsAt n h ca
          | _ \<Rightarrow> [])
       @ cellsOf n h as"

section \<open>Properties of the synced-tree mutator\<close>

lemma findBookmarkById_None_iff:
  "findBookmarkById i bs = None \<longleftrightarrow> i \<notin> b_id ` set (eachBookmark bs)"
  by (induction bs rule: eachBookmark.induct) (auto split: option.splits)

lemma findBookmarkById_id:
  "findBookmarkById i bs = Some p \<Longrightarrow> b_id p = i"
  by (induction bs rule: eachBookmark.induct) (auto split: option.splits if_splits)

lemma findBookmarkById_updateFound:
  "findBookmarkById i bs = Some p \<Longrightarrow> b_id (f p) = i \<Longrightarrow>
   findBookmarkById i (updateFound i f bs) = Some (f p)"
proof (induction bs rule: eachBookmark.induct)
  case 1
  then show ?case by simp
next
  case (2 bid t u d tg ch bs)
  show ?case
  proof (cases "bid = i")
    case True
    with 2 show ?thesis by (cases "f (Bookmark bid t u d tg ch)") auto
  next
    case False
    with 2 show ?thesis by (auto split: option.splits)
  qed
qed

lemma setChildren_id: "b_id (setChildren c p) = b_id p" by (cases p) simp

text \<open>
  C5 (as amended). For every metadata, parent id, index and tree, \<open>addBookmark\<close> fails
  with \<open>BookmarkNotFoundException\<close> when no bookmark of the tree has the parent id. When
  the parent is found and has a child list, it returns the newly created bookmark and a
  tree in which the parent's children are the old children with the new bookmark
  inserted at the position \<^verbatim>\<open>splice\<close> gives the index: the index itself when it lies
  between 0 and the number of children, clamped otherwise.
\<close>

theorem addBookmark_inserts_into_parent:
  "(parentId \<notin> b_id ` set (eachBookmark bookmarks) \<longrightarrow>
      addBookmark md parentId index bookmarks = Inl BookmarkNotFoundException)
   \<and> (\<forall>parent cs. findBookmarkById parentId bookmarks = Some parent \<and> b_children parent = Some cs \<longrightarrow>
         (let bookmark = newBookmark (getNewBookmarkId bookmarks []) (m_title md) (m_url md)
                           (m_description md) (m_tags md) (m_isSeparator md);
              k = spliceStart index (length cs)
          in (\<exists>t. addBookmark md parentId index bookmarks = Inr \<lparr>r_bookmark = bookmark, r_bookmarks = t\<rparr>
                 \<and> findBookmarkById parentId t
                     = Some (setChildren (Some (take k cs @ bookmark # drop k cs)) parent))
             \<and> (0 \<le> index \<and> index \<le> int (length cs) \<longrightarrow> k = nat index)))"
proof (intro conjI allI impI)
  assume "parentId \<notin> b_id ` set (eachBookmark bookmarks)"
  then have "findBookmarkById parentId bookmarks = None"
    by (simp add: findBookmarkById_None_iff)
  then show "addBookmark md parentId index bookmarks = Inl BookmarkNotFoundException"
    by (simp add: addBookmark_def)
next
  fix parent cs
  assume h: "findBookmarkById parentId bookmarks = Some parent \<and> b_children parent = Some cs"
  define bookmark where "bookmark = newBookmark (getNewBookmarkId bookmarks []) (m_title md) (m_url md)
                           (m_description md) (m_tags md) (m_isSeparator md)"
  define k where "k = spliceStart index (length cs)"
  have pid: "b_id parent = parentId" using h findBookmarkById_id by blast
  have "findBookmarkById parentId (updateFound parentId (setChildren (Some (splice index bookmark cs))) bookmarks)
          = Some (setChildren (Some (splice index bookmark cs)) parent)"
    using h pid by (intro findBookmarkById_updateFound) (simp_all add: setChildren_id)
  moreover have "addBookmark md parentId index bookmarks
     = Inr \<lparr>r_bookmark = bookmark, r_bookmarks = updateFound parentId (setChildren (Some (splice index bookmark cs))) bookmarks\<rparr>"
    using h by (simp add: addBookmark_def bookmark_def Let_def)
  moreover have "0 \<le> index \<and> index \<le> int (length cs) \<longrightarrow> k = nat index"
    by (auto simp: k_def spliceStart_def)
  ultimately show "let bookmark = newBookmark (getNewBookmarkId bookmarks []) (m_title md) (m_url md)
                           (m_description md) (m_tags md) (m_isSeparator md);
              k = spliceStart index (length cs)
          in (\<exists>t. addBookmark md parentId index bookmarks = Inr \<lparr>r_bookmark = bookmark, r_bookmarks = t\<rparr>
                 \<and> findBookmarkById parentId t
                     = Some (setChildren (Some (take k cs @ bookmark # drop k cs)) parent))
             \<and> (0 \<le> index \<and> index \<le> int (length cs) \<longrightarrow> k = nat index)"
    unfolding bookmark_def[symmetric] k_def[symmetric] Let_def
    by (auto simp: splice_def k_def Let_def)
qed


theorem addBookmark_inserts_into_parent_witness:
  "findBookmarkById 1 [Bookmark 1 (Some ''other'') None None None
                         (Some [Bookmark 2 (Some ''x'') (Some ''http://x'') None None None])]
     = Some (Bookmark 1 (Some ''other'') None None None
               (Some [Bookmark 2 (Some ''x'') (Some ''http://x'') None None None]))
   \<and> (0::int) \<le> 1 \<and> (1::int) \<le> int (length [Bookmark 2 (Some ''x'') (Some ''http://x'') None None None])
   \<and> addBookmark \<lparr>m_title = Some ''Example'', m_url = Some ''http://example.com'',
                     m_description = None, m_tags = None, m_isSeparator = False\<rparr> 1 1
        [Bookmark 1 (Some ''other'') None None None
           (Some [Bookmark 2 (Some ''x'') (Some ''http://x'') None None None])]
     = Inr \<lparr>r_bookmark = Bookmark 3 (Some ''Example'') (Some ''http://example.com'') None None None,
            r_bookmarks = [Bookmark 1 (Some ''other'') None None None
              (Some [Bookmark 2 (Some ''x'') (Some ''http://x'') None None None,
                     Bookmark 3 (Some ''Example'') (Some ''http://example.com'') None None None])]\<rparr>
   \<and> (7::int) \<notin> b_id ` set (eachBookmark [Bookmark 1 (Some ''other'') None None None (Some [])])
   \<and> addBookmark \<lparr>m_title = Some ''Example'', m_url = Some ''http://example.com'',
                     m_description = None, m_tags = None, m_isSeparator = False\<rparr> 7 0
        [Bookmark 1 (Some ''other'') None None None (Some [])] = Inl BookmarkNotFoundException"
  using addBookmark_inserts_into_parent
          [of 1 "[Bookmark 1 (Some ''other'') None None None
                    (Some [Bookmark 2 (Some ''x'') (Some ''http://x'') None None None])]"
              "\<lparr>m_title = Some ''Example'', m_url = Some ''http://example.com'',
                     m_description = None, m_tags = None, m_isSeparator = False\<rparr>" 1]
        addBookmark_inserts_into_parent
          [of 7 "[Bookmark 1 (Some ''other'') None None None (Some [])]"
              "\<lparr>m_title = Some ''Example'', m_url = Some ''http://example.com'',
                     m_description = None, m_tags = None, m_isSeparator = False\<rparr>" 0]
  by (simp add: addBookmark_def newBookmark_def getNewBookmarkId_def splice_def spliceStart_def Let_def)

text \<open>
  C5 as stated fails where the parent exists but is not a folder: bookmark 2 is found,
  it has no child array, and the splice raises a \<open>TypeError\<close>; no result is returned and
  the failure is not \<open>BookmarkNotFoundException\<close>.
\<close>

theorem addBookmark_childless_parent_counterexample:
  "findBookmarkById 2 [Bookmark 1 (Some ''other'') None None None
                         (Some [Bookmark 2 (Some ''x'') (Some ''http://x'') None None None])]
     = Some (Bookmark 2 (Some ''x'') (Some ''http://x'') None None None)
   \<and> addBookmark \<lparr>m_title = Some ''Example'', m_url = Some ''http://example.com'',
                     m_description = None, m_tags = None, m_isSeparator = False\<rparr> 2 0
        [Bookmark 1 (Some ''other'') None None None
           (Some [Bookmark 2 (Some ''x'') (Some ''http://x'') None None None])]
     = Inl TypeError"
  by (simp add: addBookmark_def)


subsection \<open>The bookmark added is the bookmark found by its id\<close>

lemma fold_max_ge: "(x::int) \<le> fold max xs x"
  by (induction xs arbitrary: x) (auto intro: order_trans[OF max.cobounded2])

lemma fold_max_mono: "(a::int) \<le> b \<Longrightarrow> fold max xs a \<le> fold max xs b"
  by (induction xs arbitrary: a b) (auto simp: max.mono)

lemma fold_max_mem: "(y::int) \<in> set xs \<Longrightarrow> y \<le> fold max xs x"
proof (induction xs arbitrary: x)
  case Nil
  then show ?case by simp
next
  case (Cons z zs)
  show ?case
  proof (cases "y = z")
    case True
    have "z \<le> max z x" by simp
    also have "\<dots> \<le> fold max zs (max z x)" by (rule fold_max_ge)
    finally show ?thesis using True by simp
  next
    case False
    with Cons show ?thesis by simp
  qed
qed

lemma getNewBookmarkId_fresh:
  "getNewBookmarkId bookmarks takenIds \<notin> b_id ` set (eachBookmark bookmarks)"
proof
  assume "getNewBookmarkId bookmarks takenIds \<in> b_id ` set (eachBookmark bookmarks)"
  then have "getNewBookmarkId bookmarks takenIds \<in> set (map b_id (eachBookmark bookmarks) @ takenIds)"
    by simp
  then have "getNewBookmarkId bookmarks takenIds
               \<le> fold max (map b_id (eachBookmark bookmarks) @ takenIds) 0"
    by (rule fold_max_mem)
  then show False by (simp add: getNewBookmarkId_def)
qed

lemma eachBookmark_append: "eachBookmark (xs @ ys) = eachBookmark xs @ eachBookmark ys"
  by (induction xs rule: eachBookmark.induct) simp_all

lemma findBookmarkById_inserted:
  assumes "j \<notin> b_id ` set (eachBookmark ys)" and "b_id x = j"
  shows "findBookmarkById j (ys @ x # zs) = Some x"
  using assms
proof (induction ys rule: eachBookmark.induct)
  case 1
  then show ?case by (cases x) simp
next
  case (2 bid t u d tg ch bs)
  then have "bid \<noteq> j" by auto
  moreover have "(case ch of None \<Rightarrow> None | Some cs \<Rightarrow> findBookmarkById j cs) = None"
    using 2 by (cases ch) (auto simp: findBookmarkById_None_iff)
  moreover have "findBookmarkById j (bs @ x # zs) = Some x" using 2 by auto
  ultimately show ?case by simp
qed

lemma findBookmarkById_in_updated:
  assumes "j \<notin> b_id ` set (eachBookmark t)" and "b_id x = j"
    and "findBookmarkById i t = Some p" and "b_children p = Some cs"
  shows "findBookmarkById j (updateFound i (setChildren (Some (take k cs @ x # drop k cs))) t) = Some x"
  using assms
proof (induction t rule: eachBookmark.induct)
  case 1
  then show ?case by simp
next
  case (2 bid tt u d tg ch bs)
  let ?B = "Bookmark bid tt u d tg ch"
  from "2.prems"(1) have nj: "bid \<noteq> j"
    and jch: "\<And>cs'. ch = Some cs' \<Longrightarrow> j \<notin> b_id ` set (eachBookmark cs')"
    and jbs: "j \<notin> b_id ` set (eachBookmark bs)" by auto
  show ?case
  proof (cases "bid = i")
    case True
    with "2.prems"(3) have p: "p = ?B" by simp
    with "2.prems"(4) have ch: "ch = Some cs" by simp
    have "j \<notin> b_id ` set (eachBookmark (take k cs))"
    proof
      assume "j \<in> b_id ` set (eachBookmark (take k cs))"
      moreover have "eachBookmark cs = eachBookmark (take k cs) @ eachBookmark (drop k cs)"
        by (simp add: eachBookmark_append[symmetric])
      ultimately show False using jch[OF ch] by auto
    qed
    then have "findBookmarkById j (take k cs @ x # drop k cs) = Some x"
      using "2.prems"(2) by (rule findBookmarkById_inserted)
    then show ?thesis using True nj ch by simp
  next
    case False
    show ?thesis
    proof (cases "case ch of None \<Rightarrow> None | Some cs' \<Rightarrow> findBookmarkById i cs'")
      case None
      with False "2.prems"(3) have f: "findBookmarkById i bs = Some p" by simp
      have ih: "findBookmarkById j (updateFound i (setChildren (Some (take k cs @ x # drop k cs))) bs) = Some x"
        using "2.IH"(2)[OF jbs "2.prems"(2) f "2.prems"(4)] .
      have none: "(case ch of None \<Rightarrow> None | Some cs' \<Rightarrow> findBookmarkById j cs') = None"
        using jch by (cases ch) (auto simp: findBookmarkById_None_iff)
      show ?thesis using False None nj ih none by (cases ch) auto
    next
      case (Some r)
      then obtain cs' where ch: "ch = Some cs'" and f: "findBookmarkById i cs' = Some r"
        by (auto split: option.splits)
      with False "2.prems"(3) have "r = p" by simp
      with "2.IH"(1)[OF ch jch[OF ch] "2.prems"(2)] f "2.prems"(4)
      have "findBookmarkById j (updateFound i (setChildren (Some (take k cs @ x # drop k cs))) cs') = Some x"
        by simp
      then show ?thesis using False nj ch f by simp
    qed
  qed
qed

text \<open>
  The id of the new bookmark is new to the tree, so in the tree \<open>addBookmark\<close> returns the
  bookmark with that id is the bookmark returned. This is the object to which
  \<open>processChangeTypeMoveOnBookmarks\<close> assigns the id of the bookmark moved.
\<close>

lemma addBookmark_finds_added:
  assumes "addBookmark md parentId index bookmarks = Inr res"
  shows "findBookmarkById (b_id (r_bookmark res)) (r_bookmarks res) = Some (r_bookmark res)"
proof -
  let ?x = "newBookmark (getNewBookmarkId bookmarks []) (m_title md) (m_url md)
              (m_description md) (m_tags md) (m_isSeparator md)"
  from assms obtain p cs where p: "findBookmarkById parentId bookmarks = Some p" "b_children p = Some cs"
    and res: "res = \<lparr>r_bookmark = ?x,
                      r_bookmarks = updateFound parentId (setChildren (Some (splice index ?x cs))) bookmarks\<rparr>"
    by (auto simp: addBookmark_def Let_def split: option.splits)
  have idx: "b_id ?x = getNewBookmarkId bookmarks []"
    by (simp add: newBookmark_def split: option.splits)
  have "findBookmarkById (b_id ?x)
          (updateFound parentId
             (setChildren (Some (take (spliceStart index (length cs)) cs @ ?x # drop (spliceStart index (length cs)) cs)))
             bookmarks) = Some ?x"
    using getNewBookmarkId_fresh[of bookmarks "[]"] p
    by (intro findBookmarkById_in_updated) (simp_all add: idx)
  then show ?thesis unfolding res by (simp add: splice_def Let_def)
qed

section \<open>Properties of the native-tree mutator\<close>

lemma getSupportedUrl_Some:
  "getSupportedUrl p (Some u) w =
     (if urlIsSupported p u then (u, w) else (getNewTabUrl p, logp (Info_UrlUnsupported u) w))"
  by (simp add: getSupportedUrl_def)

text \<open>
  C10. For every id and every metadata value, \<open>modifyNativeBookmark\<close> issues exactly one
  write to the host: an update of that id whose changes carry the new title and no url.
  Nothing else is written and nothing is logged before the call, whatever url the
  metadata carries, so the url of the native bookmark is not touched by the operation.
\<close>

theorem modifyNativeBookmark_title_only:
  "calls (snd (modifyNativeBookmark p h ident newMetadata w)) =
     calls w @ [Update ident \<lparr>uc_title = m_title newMetadata, uc_url = None\<rparr>]"
  by (simp add: modifyNativeBookmark_def native_write_def logp_def Let_def split: sum.splits)

text \<open>
  C9. For every url, \<open>createNativeBookmark\<close> issues exactly one create call; its details
  carry the url itself when the platform supports it and the new-tab url otherwise, and
  in the latter case the substitution is logged. The operation fails exactly when the
  host rejects that create call, so an unsupported url alone never makes it fail.
\<close>

theorem createNativeBookmark_substitutes_unsupported_url:
  "(let info = \<lparr>cd_index = index, cd_parentId = Some parentId, cd_title = title,
                 cd_url = Some (if urlIsSupported p u then u else getNewTabUrl p)\<rparr>;
        r = createNativeBookmark p h parentId title (Some u) index w
    in calls (snd r) = calls w @ [Create info]
     \<and> fst r = (case h (calls w) (Create info) of
                   Inr n \<Rightarrow> Inr n
                 | Inl cause \<Rightarrow> Inl (FailedCreateNativeBookmarksException cause))
     \<and> logs (snd r) = logs w
           @ (if urlIsSupported p u then [] else [Info_UrlUnsupported u])
           @ (case h (calls w) (Create info) of Inr n \<Rightarrow> [] | Inl cause \<Rightarrow> [Warning_FailedCreate info]))"
  by (simp add: createNativeBookmark_def getSupportedUrl_Some native_write_def logp_def Let_def
           split: sum.splits)

section \<open>Properties of the change classifier\<close>

subsection \<open>Removal\<close>

lemma getIdsFromDescendants_eq: "getIdsFromDescendants b = map b_id (descendants b)"
  by (auto simp: getIdsFromDescendants_def descendants_def split: option.splits)

lemma findBookmarkById_decomp:
  "findBookmarkById i t = Some b \<Longrightarrow> \<exists>pre post. eachBookmark t = pre @ b # descendants b @ post"
proof (induction t rule: eachBookmark.induct)
  case 1
  then show ?case by simp
next
  case (2 bid tt u d tg ch bs)
  let ?B = "Bookmark bid tt u d tg ch"
  show ?case
  proof (cases "bid = i")
    case True
    with 2 have "b = ?B" by simp
    then have "eachBookmark (?B # bs) = [] @ b # descendants b @ eachBookmark bs"
      by (simp add: descendants_def)
    then show ?thesis by blast
  next
    case False
    show ?thesis
    proof (cases "case ch of None \<Rightarrow> None | Some cs \<Rightarrow> findBookmarkById i cs")
      case None
      with False 2 have "findBookmarkById i bs = Some b" by simp
      with 2 obtain pre post where "eachBookmark bs = pre @ b # descendants b @ post" by blast
      then have "eachBookmark (?B # bs)
          = (?B # (case ch of None \<Rightarrow> [] | Some cs \<Rightarrow> eachBookmark cs) @ pre) @ b # descendants b @ post"
        by simp
      then show ?thesis by blast
    next
      case (Some r)
      then obtain cs where ch: "ch = Some cs" and f: "findBookmarkById i cs = Some r"
        by (auto split: option.splits)
      with False 2 Some have "r = b" by simp
      with 2 ch f obtain pre post where "eachBookmark cs = pre @ b # descendants b @ post" by blast
      then have "eachBookmark (?B # bs) = (?B # pre) @ b # descendants b @ (post @ eachBookmark bs)"
        using ch by simp
      then show ?thesis by blast
    qed
  qed
qed

lemma length_filter_distinct_map:
  "distinct (map f xs) \<Longrightarrow> length (filter (\<lambda>x. f x \<in> S) xs) = card (S \<inter> f ` set xs)"
proof (induction xs)
  case Nil
  then show ?case by simp
next
  case (Cons x xs)
  then have nin: "f x \<notin> f ` set xs" and d: "distinct (map f xs)" by auto
  show ?case
  proof (cases "f x \<in> S")
    case True
    then have "S \<inter> f ` set (x # xs) = insert (f x) (S \<inter> f ` set xs)" by auto
    moreover have "f x \<notin> S \<inter> f ` set xs" using nin by blast
    ultimately show ?thesis using True Cons.IH[OF d] by simp
  next
    case False
    then have "S \<inter> f ` set (x # xs) = S \<inter> f ` set xs" by auto
    then show ?thesis using False Cons.IH[OF d] by simp
  qed
qed

lemma removeBookmarkById_absent:
  "i \<notin> b_id ` set (eachBookmark t) \<Longrightarrow> removeBookmarkById i t = t"
  by (induction t rule: eachBookmark.induct) (auto split: option.splits)

lemma findBookmarkById_subtree_ids:
  assumes "findBookmarkById i t = Some b"
  shows "set (i # getIdsFromDescendants b) \<subseteq> b_id ` set (eachBookmark t)"
proof -
  from findBookmarkById_decomp[OF assms] obtain pre post
    where "eachBookmark t = pre @ b # descendants b @ post" by blast
  then show ?thesis
    using findBookmarkById_id[OF assms] by (auto simp: getIdsFromDescendants_eq)
qed

lemma removeBookmarkById_ids:
  "distinct (map b_id (eachBookmark t)) \<Longrightarrow> findBookmarkById i t = Some b \<Longrightarrow>
   map b_id (eachBookmark (removeBookmarkById i t))
     = filter (\<lambda>j. j \<notin> set (i # getIdsFromDescendants b)) (map b_id (eachBookmark t))"
proof (induction t rule: eachBookmark.induct)
  case 1
  then show ?case by simp
next
  case (2 bid tt u d tg ch bs)
  let ?B = "Bookmark bid tt u d tg ch"
  let ?cs = "case ch of None \<Rightarrow> [] | Some cs \<Rightarrow> eachBookmark cs"
  let ?D = "set (i # getIdsFromDescendants b)"
  have e: "eachBookmark (?B # bs) = ?B # ?cs @ eachBookmark bs" by simp
  from "2.prems"(1) have dist: "bid \<notin> b_id ` set ?cs" "bid \<notin> b_id ` set (eachBookmark bs)"
     "distinct (map b_id ?cs)" "distinct (map b_id (eachBookmark bs))"
     "b_id ` set ?cs \<inter> b_id ` set (eachBookmark bs) = {}"
    unfolding e by auto
  show ?case
  proof (cases "bid = i")
    case True
    with "2.prems"(2) have b: "b = ?B" by simp
    have D: "?D = insert i (b_id ` set ?cs)"
      unfolding b getIdsFromDescendants_def by (cases ch) auto
    have r: "removeBookmarkById i bs = bs"
      using dist(2) True by (intro removeBookmarkById_absent) simp
    have f1: "filter (\<lambda>j. j \<notin> ?D) (map b_id (eachBookmark bs)) = map b_id (eachBookmark bs)"
      unfolding D filter_id_conv using dist(2,5) True by auto
    have f2: "filter (\<lambda>j. j \<notin> ?D) (map b_id ?cs) = []"
      unfolding D filter_empty_conv by auto
    have "map b_id (eachBookmark (removeBookmarkById i (?B # bs))) = map b_id (eachBookmark bs)"
      using True r by simp
    moreover have "filter (\<lambda>j. j \<notin> ?D) (map b_id (eachBookmark (?B # bs))) = map b_id (eachBookmark bs)"
      unfolding e using f1 f2 True by simp
    ultimately show ?thesis by simp
  next
    case False
    show ?thesis
    proof (cases "case ch of None \<Rightarrow> None | Some cs \<Rightarrow> findBookmarkById i cs")
      case (Some r)
      then obtain cs where ch: "ch = Some cs" and f: "findBookmarkById i cs = Some r"
        by (auto split: option.splits)
      from "2.prems"(2) False Some have rb: "r = b" by simp
      have sub: "?D \<subseteq> b_id ` set (eachBookmark cs)"
        using findBookmarkById_subtree_ids[OF f] rb by simp
      have bidD: "bid \<notin> ?D" using sub dist(1) ch by auto
      have disj: "?D \<inter> b_id ` set (eachBookmark bs) = {}" using sub dist(5) ch by (simp; blast)
      have "i \<notin> b_id ` set (eachBookmark bs)" using disj by auto
      then have r: "removeBookmarkById i bs = bs" by (rule removeBookmarkById_absent)
      have f1: "filter (\<lambda>j. j \<notin> ?D) (map b_id (eachBookmark bs)) = map b_id (eachBookmark bs)"
        unfolding filter_id_conv using disj by auto
      have ih: "map b_id (eachBookmark (removeBookmarkById i cs))
                  = filter (\<lambda>j. j \<notin> ?D) (map b_id (eachBookmark cs))"
        using "2.IH"(1)[OF ch] dist(3) ch f rb by simp
      have "map b_id (eachBookmark (removeBookmarkById i (?B # bs)))
              = bid # map b_id (eachBookmark (removeBookmarkById i cs)) @ map b_id (eachBookmark bs)"
        using False ch r by simp
      moreover have "filter (\<lambda>j. j \<notin> ?D) (map b_id (eachBookmark (?B # bs)))
              = bid # filter (\<lambda>j. j \<notin> ?D) (map b_id (eachBookmark cs)) @ map b_id (eachBookmark bs)"
        unfolding e using bidD f1 ch by simp
      ultimately show ?thesis using ih by simp
    next
      case None
      with "2.prems"(2) False have f: "findBookmarkById i bs = Some b" by simp
      have sub: "?D \<subseteq> b_id ` set (eachBookmark bs)"
        using findBookmarkById_subtree_ids[OF f] by simp
      have bidD: "bid \<notin> ?D" using sub dist(2) by auto
      have disj: "?D \<inter> b_id ` set ?cs = {}" using sub dist(5) by blast
      have f1: "filter (\<lambda>j. j \<notin> ?D) (map b_id ?cs) = map b_id ?cs"
        unfolding filter_id_conv using disj by auto
      have r: "(case ch of None \<Rightarrow> None | Some cs \<Rightarrow> Some (removeBookmarkById i cs)) = ch"
      proof (cases ch)
        case None
        then show ?thesis by simp
      next
        case (Some cs)
        then have "i \<notin> b_id ` set (eachBookmark cs)" using disj by auto
        then show ?thesis using Some by (simp add: removeBookmarkById_absent)
      qed
      have ih: "map b_id (eachBookmark (removeBookmarkById i bs))
                  = filter (\<lambda>j. j \<notin> ?D) (map b_id (eachBookmark bs))"
        using "2.IH"(2) dist(4) f by simp
      have "map b_id (eachBookmark (removeBookmarkById i (?B # bs)))
              = bid # map b_id ?cs @ map b_id (eachBookmark (removeBookmarkById i bs))"
        using False r by simp
      moreover have "filter (\<lambda>j. j \<notin> ?D) (map b_id (eachBookmark (?B # bs)))
              = bid # map b_id ?cs @ filter (\<lambda>j. j \<notin> ?D) (map b_id (eachBookmark bs))"
        unfolding e using bidD f1 by simp
      ultimately show ?thesis using ih by simp
    qed
  qed
qed


lemma findBookmarkById_distinct_descendants:
  assumes "findBookmarkById i t = Some b" and "distinct (map b_id (eachBookmark t))"
  shows "distinct (getIdsFromDescendants b) \<and> i \<notin> set (getIdsFromDescendants b)"
proof -
  from findBookmarkById_decomp[OF assms(1)] obtain pre post
    where "eachBookmark t = pre @ b # descendants b @ post" by blast
  with assms(2) have "distinct (map b_id (b # descendants b))" by simp
  then show ?thesis
    using findBookmarkById_id[OF assms(1)] by (simp add: getIdsFromDescendants_eq)
qed

lemma removed_mappings_count:
  assumes dm: "distinct (map syncedId ms)" and dd: "distinct ds" and nin: "s \<notin> set ds"
    and mem: "s \<in> syncedId ` set ms"
  shows "length ms
           = length (filter (\<lambda>x. syncedId x \<notin> set (ds @ [s])) ms)
             + (length (filter (\<lambda>d. d \<in> syncedId ` set ms) ds) + 1)"
proof -
  let ?M = "syncedId ` set ms"
  have "length (filter (\<lambda>x. syncedId x \<in> set (ds @ [s])) ms) = card (set (ds @ [s]) \<inter> ?M)"
    using dm by (rule length_filter_distinct_map)
  also have "set (ds @ [s]) \<inter> ?M = insert s (set ds \<inter> ?M)" using mem by auto
  also have "card (insert s (set ds \<inter> ?M)) = Suc (card (set ds \<inter> ?M))"
    using nin by simp
  also have "card (set ds \<inter> ?M) = length (filter (\<lambda>d. d \<in> ?M) ds)"
    using dd by (simp add: distinct_length_filter Int_commute)
  finally have "length (filter (\<lambda>x. syncedId x \<in> set (ds @ [s])) ms)
                  = length (filter (\<lambda>d. d \<in> ?M) ds) + 1" by simp
  moreover have "length ms = length (filter (\<lambda>x. syncedId x \<in> set (ds @ [s])) ms)
                           + length (filter (\<lambda>x. \<not> syncedId x \<in> set (ds @ [s])) ms)"
    by (rule sum_length_filter_compl[symmetric])
  ultimately show ?thesis by simp
qed

text \<open>
  C2. Take a canonical tree with unique ids and a mapping table with at most one mapping
  per synced id. If the native id of a Remove change is mapped, the mapped bookmark is in
  the tree, the sync test passes and the change is not a container change, then
  \<open>processChangeTypeRemoveOnBookmarks\<close> resolves with the tree from which that one
  bookmark has been removed by a single \<open>removeBookmarkById\<close> of the root's id: the ids
  that disappear are exactly the root's and its descendants'. The mapping table loses
  exactly N + 1 entries, where N is the number of descendants that have a mapping, and
  nothing else of the state changes.
\<close>

theorem processChangeTypeRemoveOnBookmarks_removes_subtree_and_mappings:
  assumes notContainer: "\<not> wcc nativeBookmark bookmarks"
    and mapped: "find (\<lambda>x. nativeId x = n_id nativeBookmark) (idMappings w) = Some m"
    and found: "findBookmarkById (syncedId m) bookmarks = Some bookmarkToRemove"
    and worthy: "fst (checkIfBookmarkChangeShouldBeSynced bookmarkToRemove bookmarks w) = Inr True"
    and uniqueIds: "distinct (map b_id (eachBookmark bookmarks))"
    and uniqueMappings: "distinct (map syncedId (idMappings w))"
  shows "processChangeTypeRemoveOnBookmarks wcc bookmarks nativeBookmark w
           = (Inr (Some (removeBookmarkById (syncedId m) bookmarks)),
              w\<lparr>idMappings := filter (\<lambda>x. syncedId x \<notin> set (getIdsFromDescendants bookmarkToRemove @ [syncedId m]))
                                   (idMappings w)\<rparr>)
       \<and> map b_id (eachBookmark (removeBookmarkById (syncedId m) bookmarks))
           = filter (\<lambda>j. j \<notin> set (syncedId m # getIdsFromDescendants bookmarkToRemove))
               (map b_id (eachBookmark bookmarks))
       \<and> length (idMappings w)
           = length (filter (\<lambda>x. syncedId x \<notin> set (getIdsFromDescendants bookmarkToRemove @ [syncedId m]))
                       (idMappings w))
             + (length (filter (\<lambda>d. d \<in> syncedId ` set (idMappings w))
                          (getIdsFromDescendants bookmarkToRemove)) + 1)"
proof (intro conjI)
  have chk: "checkIfBookmarkChangeShouldBeSynced bookmarkToRemove bookmarks w = (Inr True, w)"
    using worthy
    by (auto simp: checkIfBookmarkChangeShouldBeSynced_def split: option.splits if_splits)
  show "processChangeTypeRemoveOnBookmarks wcc bookmarks nativeBookmark w
           = (Inr (Some (removeBookmarkById (syncedId m) bookmarks)),
              w\<lparr>idMappings := filter (\<lambda>x. syncedId x \<notin> set (getIdsFromDescendants bookmarkToRemove @ [syncedId m]))
                                   (idMappings w)\<rparr>)"
    using notContainer mapped found chk
    by (simp add: processChangeTypeRemoveOnBookmarks_def then_p_def bookmarkIdMapperSvc_get_def
          bookmarkIdMapperSvc_remove_def resolve_def Let_def)
  show "map b_id (eachBookmark (removeBookmarkById (syncedId m) bookmarks))
           = filter (\<lambda>j. j \<notin> set (syncedId m # getIdsFromDescendants bookmarkToRemove))
               (map b_id (eachBookmark bookmarks))"
    using uniqueIds found by (rule removeBookmarkById_ids)
  have "m \<in> set (idMappings w)" using mapped by (auto simp: find_Some_iff)
  then have mem: "syncedId m \<in> syncedId ` set (idMappings w)" by blast
  show "length (idMappings w)
           = length (filter (\<lambda>x. syncedId x \<notin> set (getIdsFromDescendants bookmarkToRemove @ [syncedId m]))
                       (idMappings w))
             + (length (filter (\<lambda>d. d \<in> syncedId ` set (idMappings w))
                          (getIdsFromDescendants bookmarkToRemove)) + 1)"
    using findBookmarkById_distinct_descendants[OF found uniqueIds] uniqueMappings mem
    by (intro removed_mappings_count) simp_all
qed

theorem processChangeTypeRemoveOnBookmarks_removes_subtree_and_mappings_witness:
  "processChangeTypeRemoveOnBookmarks (\<lambda>_ _. False)
     [Bookmark 1 (Some ''other'') None None None
        (Some [Bookmark 2 (Some ''folder'') None None None
                 (Some [Bookmark 3 (Some ''a'') (Some ''http://a'') None None None,
                        Bookmark 4 (Some ''b'') (Some ''http://b'') None None None]),
               Bookmark 5 (Some ''c'') (Some ''http://c'') None None None])]
     (NativeBookmark ''n2'' (Some ''n1'') (Some 0) ''folder'' None None)
     \<lparr>calls = [], logs = [], listeners = True, syncEnabled = True, syncBookmarksToolbar = False,
      idMappings = [\<lparr>syncedId = 2, nativeId = ''n2''\<rparr>, \<lparr>syncedId = 3, nativeId = ''n3''\<rparr>,
                    \<lparr>syncedId = 5, nativeId = ''n5''\<rparr>]\<rparr>
   = (Inr (Some [Bookmark 1 (Some ''other'') None None None
                   (Some [Bookmark 5 (Some ''c'') (Some ''http://c'') None None None])]),
      \<lparr>calls = [], logs = [], listeners = True, syncEnabled = True, syncBookmarksToolbar = False,
       idMappings = [\<lparr>syncedId = 5, nativeId = ''n5''\<rparr>]\<rparr>)"
  using processChangeTypeRemoveOnBookmarks_removes_subtree_and_mappings
    [of "\<lambda>_ _. False" "NativeBookmark ''n2'' (Some ''n1'') (Some 0) ''folder'' None None"
        "[Bookmark 1 (Some ''other'') None None None
        (Some [Bookmark 2 (Some ''folder'') None None None
                 (Some [Bookmark 3 (Some ''a'') (Some ''http://a'') None None None,
                        Bookmark 4 (Some ''b'') (Some ''http://b'') None None None]),
               Bookmark 5 (Some ''c'') (Some ''http://c'') None None None])]"
        "\<lparr>calls = [], logs = [], listeners = True, syncEnabled = True, syncBookmarksToolbar = False,
      idMappings = [\<lparr>syncedId = 2, nativeId = ''n2''\<rparr>, \<lparr>syncedId = 3, nativeId = ''n3''\<rparr>,
                    \<lparr>syncedId = 5, nativeId = ''n5''\<rparr>]\<rparr>"
        "\<lparr>syncedId = 2, nativeId = ''n2''\<rparr>"
        "Bookmark 2 (Some ''folder'') None None None
                 (Some [Bookmark 3 (Some ''a'') (Some ''http://a'') None None None,
                        Bookmark 4 (Some ''b'') (Some ''http://b'') None None None])"]
  by (simp add: checkIfBookmarkChangeShouldBeSynced_def getContainerByBookmarkId_def
        getIdsFromDescendants_def)

subsection \<open>Children reordered\<close>

lemma all_p_get:
  "all_p (map (\<lambda>childId. bookmarkIdMapperSvc_get (Some childId)) cs) w
     = (Inr (map (\<lambda>c. find (\<lambda>m. nativeId m = c) (idMappings w)) cs), w)"
  by (induction cs) (simp_all add: bookmarkIdMapperSvc_get_def)

lemma map_filter_map_id: "List.map_filter (\<lambda>x. x) (map f xs) = List.map_filter f xs"
  by (induction xs) (simp_all add: List.map_filter_simps split: option.splits)

lemma reorderedParent_world:
  "fst (reorderedParent ids cd w) = Inr ref \<Longrightarrow> reorderedParent ids cd w = (Inr ref, w)"
  by (auto simp: reorderedParent_def then_p_def resolve_def reject_def bookmarkIdMapperSvc_get_def
           split: option.splits)

lemma find_updateContainer:
  "find (\<lambda>x. b_title x = Some name) bs = Some p \<Longrightarrow> b_title (f p) = Some name \<Longrightarrow>
   find (\<lambda>x. b_title x = Some name) (updateContainer name f bs) = Some (f p)"
  by (induction bs) (auto split: if_splits)

lemma setChildren_title: "b_title (setChildren c p) = b_title p" by (cases p) simp

lemma deref_assign_setChildren:
  assumes "deref ref bookmarks = Some p"
  shows "deref ref (assign ref (setChildren ch) bookmarks) = Some (setChildren ch p)"
proof (cases ref)
  case (ContainerRef name)
  with assms have f: "find (\<lambda>x. b_title x = Some name) bookmarks = Some p"
    by (simp add: getContainer_def split: option.splits)
  then have "b_title p = Some name" by (auto simp: find_Some_iff)
  then have "find (\<lambda>x. b_title x = Some name) (updateContainer name (setChildren ch) bookmarks)
               = Some (setChildren ch p)"
    using f by (intro find_updateContainer) (simp_all add: setChildren_title)
  then show ?thesis using ContainerRef by (simp add: getContainer_def)
next
  case (MappedRef i)
  with assms have f: "findBookmarkById i bookmarks = Some p" by simp
  then have "b_id p = i" by (rule findBookmarkById_id)
  then have "findBookmarkById i (updateFound i (setChildren ch) bookmarks) = Some (setChildren ch p)"
    using f by (intro findBookmarkById_updateFound) (simp_all add: setChildren_id)
  then show ?thesis using MappedRef by simp
qed

lemma those_find_children:
  "set ids \<subseteq> b_id ` set cs \<Longrightarrow>
   \<exists>ys. those (map (\<lambda>childId. find (\<lambda>x. b_id x = childId) cs) ids) = Some ys
        \<and> map b_id ys = ids \<and> set ys \<subseteq> set cs"
proof (induction ids)
  case Nil
  then show ?case by simp
next
  case (Cons c ids)
  then obtain ys where ys: "those (map (\<lambda>childId. find (\<lambda>x. b_id x = childId) cs) ids) = Some ys"
      "map b_id ys = ids" "set ys \<subseteq> set cs" by auto
  from Cons.prems have "\<exists>x\<in>set cs. b_id x = c" by auto
  then obtain y where y: "find (\<lambda>x. b_id x = c) cs = Some y"
    by (cases "find (\<lambda>x. b_id x = c) cs") (auto simp: find_None_iff)
  then have "b_id y = c" "y \<in> set cs" by (auto simp: find_Some_iff)
  with ys y show ?case by simp
qed

text \<open>
  What \<open>processChangeTypeChildrenReorderedOnBookmarks\<close> computes when the parent resolves
  to a bookmark with a child list in which every mapped synced id of the native sequence
  is found: the new child list holds the children with exactly those ids, in the order of
  the sequence, and the state is unchanged. A child of the parent without a mapping in
  the sequence is in no case part of the new list.
\<close>

lemma reordered_children_are_the_mapped_ones:
  assumes parent: "fst (reorderedParent nativeContainerIds changeData w) = Inr parentRef"
    and deref: "deref parentRef bookmarks = Some parentBookmark"
    and children: "b_children parentBookmark = Some cs"
    and present: "set (mappedChildIds w (rc_childIds changeData)) \<subseteq> b_id ` set cs"
  shows "\<exists>newChildren.
           processChangeTypeChildrenReorderedOnBookmarks nativeContainerIds bookmarks changeData w
             = (Inr (assign parentRef (setChildren (Some newChildren)) bookmarks), w)
         \<and> deref parentRef (assign parentRef (setChildren (Some newChildren)) bookmarks)
             = Some (setChildren (Some newChildren) parentBookmark)
         \<and> map b_id newChildren = mappedChildIds w (rc_childIds changeData)
         \<and> set newChildren \<subseteq> set cs"
proof -
  let ?ids = "mappedChildIds w (rc_childIds changeData)"
  from those_find_children[OF present] obtain ys where
    ys: "those (map (\<lambda>childId. find (\<lambda>x. b_id x = childId) cs) ?ids) = Some ys"
        "map b_id ys = ?ids" "set ys \<subseteq> set cs" by blast
  have ids: "map syncedId (List.map_filter (\<lambda>x. x)
                (map (\<lambda>c. find (\<lambda>m. nativeId m = c) (idMappings w)) (rc_childIds changeData))) = ?ids"
    by (simp add: mappedChildIds_def map_filter_map_id)
  have empty: "List.map_filter (\<lambda>x. x)
                (map (\<lambda>c. find (\<lambda>m. nativeId m = c) (idMappings w)) (rc_childIds changeData)) = []
               \<Longrightarrow> ys = []"
    using ys(2) ids by auto
  have "processChangeTypeChildrenReorderedOnBookmarks nativeContainerIds bookmarks changeData w
          = (Inr (assign parentRef (setChildren (Some ys)) bookmarks), w)"
    unfolding processChangeTypeChildrenReorderedOnBookmarks_def then_p_def
    using reorderedParent_world[OF parent] deref children ys(1) empty
    by (simp add: all_p_get ids Let_def resolve_def)
  with deref_assign_setChildren[OF deref] ys(2,3) show ?thesis by blast
qed


text \<open>
  C1, at the inputs where the code departs from it. The claim has the mapped children
  reordered, every unmapped child left at its position and no child dropped. On the
  spec's own scenario (the toolbar has the children A, B and C, only B is mapped, the
  native order is A, B, C) the new child list is B alone: A and C are dropped from the
  tree. With B and C mapped and the native order C, A, B the new list is C, B: the mapped
  children are reordered and the unmapped A is dropped.
\<close>

theorem processChangeTypeChildrenReorderedOnBookmarks_drops_unmapped_children:
  "processChangeTypeChildrenReorderedOnBookmarks [(''other'', ''n1''), (''toolbar'', ''n2'')]
     [Bookmark 1 (Some ''other'') None None None (Some []),
      Bookmark 2 (Some ''toolbar'') None None None
        (Some [Bookmark 10 (Some ''A'') (Some ''http://a'') None None None,
               Bookmark 11 (Some ''B'') (Some ''http://b'') None None None,
               Bookmark 12 (Some ''C'') (Some ''http://c'') None None None])]
     \<lparr>rc_childIds = [''nA'', ''nB'', ''nC''], rc_parentId = ''n2''\<rparr>
     \<lparr>calls = [], logs = [], listeners = True, syncEnabled = True, syncBookmarksToolbar = True,
      idMappings = [\<lparr>syncedId = 11, nativeId = ''nB''\<rparr>]\<rparr>
   = (Inr [Bookmark 1 (Some ''other'') None None None (Some []),
           Bookmark 2 (Some ''toolbar'') None None None
             (Some [Bookmark 11 (Some ''B'') (Some ''http://b'') None None None])],
      \<lparr>calls = [], logs = [], listeners = True, syncEnabled = True, syncBookmarksToolbar = True,
      idMappings = [\<lparr>syncedId = 11, nativeId = ''nB''\<rparr>]\<rparr>)
   \<and> processChangeTypeChildrenReorderedOnBookmarks [(''other'', ''n1''), (''toolbar'', ''n2'')]
     [Bookmark 1 (Some ''other'') None None None (Some []),
      Bookmark 2 (Some ''toolbar'') None None None
        (Some [Bookmark 10 (Some ''A'') (Some ''http://a'') None None None,
               Bookmark 11 (Some ''B'') (Some ''http://b'') None None None,
               Bookmark 12 (Some ''C'') (Some ''http://c'') None None None])]
     \<lparr>rc_childIds = [''nC'', ''nA'', ''nB''], rc_parentId = ''n2''\<rparr>
     \<lparr>calls = [], logs = [], listeners = True, syncEnabled = True, syncBookmarksToolbar = True,
      idMappings = [\<lparr>syncedId = 11, nativeId = ''nB''\<rparr>, \<lparr>syncedId = 12, nativeId = ''nC''\<rparr>]\<rparr>
   = (Inr [Bookmark 1 (Some ''other'') None None None (Some []),
           Bookmark 2 (Some ''toolbar'') None None None
             (Some [Bookmark 12 (Some ''C'') (Some ''http://c'') None None None,
                    Bookmark 11 (Some ''B'') (Some ''http://b'') None None None])],
      \<lparr>calls = [], logs = [], listeners = True, syncEnabled = True, syncBookmarksToolbar = True,
      idMappings = [\<lparr>syncedId = 11, nativeId = ''nB''\<rparr>, \<lparr>syncedId = 12, nativeId = ''nC''\<rparr>]\<rparr>)"
  by (simp add: processChangeTypeChildrenReorderedOnBookmarks_def reorderedParent_def then_p_def
        resolve_def bookmarkIdMapperSvc_get_def getContainer_def List.map_filter_simps Let_def)

subsection \<open>Moves\<close>

text \<open>
  C6. When the native node being moved (the node the host returns for the moved id) is
  itself a reserved container, \<open>processChangeTypeMoveOnBookmarks\<close> throws
  \<open>ContainerChangedException\<close> if the old parent id differs from the new parent id; if
  the parent is unchanged it resolves without an updated tree (no canonical mutation) and
  leaves the state, the id mappings included, as it was.
\<close>

theorem processChangeTypeMoveOnBookmarks_moved_container:
  assumes moved: "bookmarks_get rd (calls w) (mc_id changeData) = Inr (movedBookmark # others)"
    and container: "bookmarkIsContainer (n_title movedBookmark)"
  shows "processChangeTypeMoveOnBookmarks rd nativeContainerIds bookmarks changeData w
           = (if mc_oldParentId changeData \<noteq> mc_parentId changeData
              then (Inl ContainerChangedException, w)
              else (Inr None, w))"
  using assms
  by (simp add: processChangeTypeMoveOnBookmarks_def then_p_def readp_def reject_def resolve_def)

theorem processChangeTypeMoveOnBookmarks_moved_container_witness:
  "processChangeTypeMoveOnBookmarks
     \<lparr>bookmarks_get = (\<lambda>_ i. Inr [NativeBookmark ''nT'' (Some ''root'') (Some 0) ''toolbar'' None (Some [])]),
      bookmarks_getSubTree = (\<lambda>_ _. Inl ''unused'')\<rparr>
     [(''other'', ''nO''), (''toolbar'', ''nT'')]
     [Bookmark 1 (Some ''other'') None None None (Some []),
      Bookmark 2 (Some ''toolbar'') None None None (Some [])]
     \<lparr>mc_id = ''nT'', mc_index = 1, mc_oldIndex = 0, mc_oldParentId = ''root'', mc_parentId = ''root''\<rparr>
     \<lparr>calls = [], logs = [], listeners = True, syncEnabled = True, syncBookmarksToolbar = True,
      idMappings = []\<rparr>
   = (Inr None, \<lparr>calls = [], logs = [], listeners = True, syncEnabled = True, syncBookmarksToolbar = True,
      idMappings = []\<rparr>)
   \<and> processChangeTypeMoveOnBookmarks
     \<lparr>bookmarks_get = (\<lambda>_ i. Inr [NativeBookmark ''nT'' (Some ''nO'') (Some 0) ''toolbar'' None (Some [])]),
      bookmarks_getSubTree = (\<lambda>_ _. Inl ''unused'')\<rparr>
     [(''other'', ''nO''), (''toolbar'', ''nT'')]
     [Bookmark 1 (Some ''other'') None None None (Some []),
      Bookmark 2 (Some ''toolbar'') None None None (Some [])]
     \<lparr>mc_id = ''nT'', mc_index = 0, mc_oldIndex = 0, mc_oldParentId = ''root'', mc_parentId = ''nO''\<rparr>
     \<lparr>calls = [], logs = [], listeners = True, syncEnabled = True, syncBookmarksToolbar = True,
      idMappings = []\<rparr>
   = (Inl ContainerChangedException,
      \<lparr>calls = [], logs = [], listeners = True, syncEnabled = True, syncBookmarksToolbar = True,
      idMappings = []\<rparr>)"
  using processChangeTypeMoveOnBookmarks_moved_container
    [of "\<lparr>bookmarks_get = (\<lambda>_ i. Inr [NativeBookmark ''nT'' (Some ''root'') (Some 0) ''toolbar'' None (Some [])]),
      bookmarks_getSubTree = (\<lambda>_ _. Inl ''unused'')\<rparr>"
      "\<lparr>calls = [], logs = [], listeners = True, syncEnabled = True, syncBookmarksToolbar = True,
      idMappings = []\<rparr>"
      "\<lparr>mc_id = ''nT'', mc_index = 1, mc_oldIndex = 0, mc_oldParentId = ''root'', mc_parentId = ''root''\<rparr>"
      "NativeBookmark ''nT'' (Some ''root'') (Some 0) ''toolbar'' None (Some [])" "[]"
      "[(''other'', ''nO''), (''toolbar'', ''nT'')]"
      "[Bookmark 1 (Some ''other'') None None None (Some []),
      Bookmark 2 (Some ''toolbar'') None None None (Some [])]"]
    processChangeTypeMoveOnBookmarks_moved_container
    [of "\<lparr>bookmarks_get = (\<lambda>_ i. Inr [NativeBookmark ''nT'' (Some ''nO'') (Some 0) ''toolbar'' None (Some [])]),
      bookmarks_getSubTree = (\<lambda>_ _. Inl ''unused'')\<rparr>"
      "\<lparr>calls = [], logs = [], listeners = True, syncEnabled = True, syncBookmarksToolbar = True,
      idMappings = []\<rparr>"
      "\<lparr>mc_id = ''nT'', mc_index = 0, mc_oldIndex = 0, mc_oldParentId = ''root'', mc_parentId = ''nO''\<rparr>"
      "NativeBookmark ''nT'' (Some ''nO'') (Some 0) ''toolbar'' None (Some [])" "[]"
      "[(''other'', ''nO''), (''toolbar'', ''nT'')]"
      "[Bookmark 1 (Some ''other'') None None None (Some []),
      Bookmark 2 (Some ''toolbar'') None None None (Some [])]"]
  by (simp add: bookmarkIsContainer_def)

subsection \<open>The sync-toolbar preference\<close>














section \<open>Properties of the separator codec and of the listeners\<close>

lemma convertNativeBookmarkToSeparator_calls:
  "calls (snd (convertNativeBookmarkToSeparator g p h ids bookmark w))
     = calls w @
       (let inToolbar = isNativeBookmarkInToolbarContainer ids bookmark;
            title = (if inToolbar then VerticalSeparatorTitle g else HorizontalSeparatorTitle g)
        in if (n_url bookmark = Some (getNewTabUrl p) \<and> \<not> inToolbar
                 \<and> n_title bookmark = HorizontalSeparatorTitle g)
              \<or> (inToolbar \<and> n_title bookmark = VerticalSeparatorTitle g)
           then []
           else if (\<not> inToolbar \<and> n_title bookmark = VerticalSeparatorTitle g)
                   \<or> (inToolbar \<and> n_title bookmark = HorizontalSeparatorTitle g)
           then [Update (n_id bookmark) \<lparr>uc_title = Some title, uc_url = None\<rparr>]
           else Remove (n_id bookmark)
                  # (case h (calls w) (Remove (n_id bookmark)) of
                       Inl _ \<Rightarrow> []
                     | Inr _ \<Rightarrow> [Create \<lparr>cd_index = n_index bookmark, cd_parentId = n_parentId bookmark,
                                           cd_title = title, cd_url = Some (getNewTabUrl p)\<rparr>]))"
  by (auto simp: convertNativeBookmarkToSeparator_def Let_def resolve_def finally_p_def then_p_def
        disableEventListeners_def enableEventListeners_def hostp_def native_write_def
        split: sum.splits prod.splits)


text \<open>
  C7, at the inputs where the code departs from it. The skip test reads the url only
  for a node outside the toolbar, and the title-only test does not read it at all. A
  node in the toolbar root titled with the vertical separator title and carrying a web
  url is not a separator, yet nothing is written for it. A node outside the toolbar with
  that title and a web url gets a title update only: it is neither removed nor recreated
  and keeps its url.
\<close>

theorem convertNativeBookmarkToSeparator_keeps_non_separator:
  "convertNativeBookmarkToSeparator \<lparr>HorizontalSeparatorTitle = ''--------'', VerticalSeparatorTitle = ''|''\<rparr>
      \<lparr>getNewTabUrl = ''chrome://newtab/'', urlIsSupported = (\<lambda>_. True)\<rparr>
      (\<lambda>_ _. Inr (NativeBookmark ''9'' (Some ''1'') (Some 0) ''|'' (Some ''chrome://newtab/'') None))
      [(''other'', ''2''), (''toolbar'', ''1'')]
      (NativeBookmark ''7'' (Some ''1'') (Some 0) ''|'' (Some ''http://example.com'') None)
      \<lparr>calls = [], logs = [], listeners = True, syncEnabled = True,
        syncBookmarksToolbar = True, idMappings = []\<rparr>
    = (Inr (NativeBookmark ''7'' (Some ''1'') (Some 0) ''|'' (Some ''http://example.com'') None),
       \<lparr>calls = [], logs = [], listeners = True, syncEnabled = True,
        syncBookmarksToolbar = True, idMappings = []\<rparr>)
   \<and> convertNativeBookmarkToSeparator \<lparr>HorizontalSeparatorTitle = ''--------'', VerticalSeparatorTitle = ''|''\<rparr>
      \<lparr>getNewTabUrl = ''chrome://newtab/'', urlIsSupported = (\<lambda>_. True)\<rparr>
      (\<lambda>_ _. Inr (NativeBookmark ''8'' (Some ''2'') (Some 0) ''--------'' (Some ''http://example.com'') None))
      [(''other'', ''2''), (''toolbar'', ''1'')]
      (NativeBookmark ''8'' (Some ''2'') (Some 0) ''|'' (Some ''http://example.com'') None)
      \<lparr>calls = [], logs = [], listeners = True, syncEnabled = True,
        syncBookmarksToolbar = True, idMappings = []\<rparr>
    = (Inr (NativeBookmark ''8'' (Some ''2'') (Some 0) ''--------'' (Some ''http://example.com'') None),
       \<lparr>calls = [Update ''8'' \<lparr>uc_title = Some ''--------'', uc_url = None\<rparr>], logs = [], listeners = True, syncEnabled = True,
        syncBookmarksToolbar = True, idMappings = []\<rparr>)"
  by (simp add: convertNativeBookmarkToSeparator_def isNativeBookmarkInToolbarContainer_def
        resolve_def finally_p_def then_p_def disableEventListeners_def enableEventListeners_def
        hostp_def native_write_def Let_def)

lemma toggleEventListeners_respects_flag:
  "toggleEventListeners None w = (Inr (), w\<lparr>listeners := syncEnabled w\<rparr>)"
  by (simp add: toggleEventListeners_def)

lemma hostp_fields:
  "listeners (snd (hostp h c w)) = listeners w" "syncEnabled (snd (hostp h c w)) = syncEnabled w"
  "calls (snd (hostp h c w)) = calls w @ [c]"
  by (simp_all add: hostp_def native_write_def split: sum.splits)

lemma convertNativeBookmarkToSeparator_cleanup:
  "listeners (snd (convertNativeBookmarkToSeparator g p h ids bookmark w))
     = (if (n_url bookmark = Some (getNewTabUrl p) \<and> \<not> isNativeBookmarkInToolbarContainer ids bookmark
              \<and> n_title bookmark = HorizontalSeparatorTitle g)
           \<or> (isNativeBookmarkInToolbarContainer ids bookmark \<and> n_title bookmark = VerticalSeparatorTitle g)
        then listeners w else syncEnabled w)"
  by (auto simp: convertNativeBookmarkToSeparator_def Let_def resolve_def finally_p_def then_p_def
        disableEventListeners_def enableEventListeners_def hostp_def native_write_def
        split: sum.splits prod.splits)

text \<open>
  C3, at the inputs where the code departs from it. When a move of
  \<open>reorderUnsupportedContainers\<close> is rejected, the step that re-enables the listeners is
  skipped: the listeners stay off although sync is enabled. In \<^verbatim>\<open>background.js\<close>, the
  cleanup of \<open>convertLocalBookmarkToSeparator\<close> switches the listeners on although sync
  has been disabled.
\<close>

theorem reorderAfterSync_failure_leaves_listeners_off:
  "reorderAfterSync (\<lambda>_ _. Inl ''cannot move'')
      (\<lambda>_ _. Inr [NativeBookmark ''m'' (Some ''2'') (Some 3) ''menu'' None (Some [])])
      [''menu'']
      \<lparr>calls = [], logs = [], listeners = True, syncEnabled = True,
        syncBookmarksToolbar = True, idMappings = []\<rparr>
    = (Inl (HostFailure ''cannot move''),
       \<lparr>calls = [Move ''m'' \<lparr>mv_index = Some 0, mv_parentId = Some ''2''\<rparr>], logs = [], listeners = False, syncEnabled = True,
        syncBookmarksToolbar = True, idMappings = []\<rparr>)
   \<and> convertLocalBookmarkToSeparator \<lparr>HorizontalSeparatorTitle = ''--------'', VerticalSeparatorTitle = ''|''\<rparr>
      \<lparr>getNewTabUrl = ''chrome://newtab/'', urlIsSupported = (\<lambda>_. True)\<rparr>
      (\<lambda>_ _. Inr (NativeBookmark ''9'' (Some ''2'') (Some 0) ''--------'' (Some ''chrome://newtab/'') None))
      False
      (NativeBookmark ''8'' (Some ''2'') (Some 0) ''-'' None None)
      \<lparr>calls = [], logs = [], listeners = True, syncEnabled = False,
        syncBookmarksToolbar = True, idMappings = []\<rparr>
    = (Inr (Some (NativeBookmark ''9'' (Some ''2'') (Some 0) ''--------'' (Some ''chrome://newtab/'') None)),
       \<lparr>calls = [Remove ''8'', Create \<lparr>cd_index = Some 0, cd_parentId = Some ''2'', cd_title = ''--------'', cd_url = Some ''chrome://newtab/''\<rparr>], logs = [], listeners = True, syncEnabled = False,
        syncBookmarksToolbar = True, idMappings = []\<rparr>)"
  by (simp add: reorderAfterSync_def reorderUnsupportedContainers_def getNativeBookmarkByTitle_def
        convertLocalBookmarkToSeparator_def toggleEventListeners_def
        resolve_def finally_p_def then_p_def readp_def disableEventListeners_def
        enableEventListeners_def hostp_def native_write_def List.map_filter_simps Let_def)

section \<open>Properties of the store-level model\<close>

lemma closedFrom_append:
  assumes "closedFrom k h" and "refs c \<subseteq> {k..<Suc (length h)}"
  shows "closedFrom k (h @ [c])"
  unfolding closedFrom_def
proof (intro allI impI)
  fix b assume b: "k \<le> b \<and> b < length (h @ [c])"
  show "refs ((h @ [c]) ! b) \<subseteq> {k..<length (h @ [c])}"
  proof (cases "b < length h")
    case True
    then have "refs (h ! b) \<subseteq> {k..<length h}" using assms(1) b by (simp add: closedFrom_def)
    then show ?thesis using True by (auto simp: nth_append)
  next
    case False
    with b have "b = length h" by simp
    then show ?thesis using assms(2) by simp
  qed
qed

lemma angular_copy_fresh:
  "k \<le> length h \<Longrightarrow> closedFrom k h \<Longrightarrow> angular_copy n h arr = Some (a', h1) \<Longrightarrow>
     take (length h) h1 = h \<and> length h \<le> a' \<and> a' < length h1 \<and> closedFrom k h1"
  "k \<le> length h \<Longrightarrow> closedFrom k h \<Longrightarrow> angular_copy_elems n h as = Some (as', h1) \<Longrightarrow>
     take (length h) h1 = h \<and> length h \<le> length h1 \<and> (\<forall>e\<in>set as'. length h \<le> e \<and> e < length h1)
     \<and> closedFrom k h1"
proof (induction n h arr and n h as arbitrary: a' h1 and as' h1
         rule: angular_copy_angular_copy_elems.induct)
  case (1 h arr)
  then show ?case by simp
next
  case (2 n h arr)
  from "2.prems"(3) obtain elems elems' h0 where c: "cellAt h arr = Some (ArrayObj elems)"
    and r: "angular_copy_elems n h elems = Some (elems', h0)"
    and e: "a' = length h0" "h1 = h0 @ [ArrayObj elems']"
    by (auto simp: alloc_def split: option.splits cell.splits)
  from "2.IH"[OF c refl "2.prems"(1,2) r]
  have ih: "take (length h) h0 = h" "length h \<le> length h0"
    "\<forall>e\<in>set elems'. length h \<le> e \<and> e < length h0" "closedFrom k h0" by auto
  have "refs (ArrayObj elems') \<subseteq> {k..<Suc (length h0)}"
    using ih(3) "2.prems"(1) by auto
  then have "closedFrom k h1" unfolding e using ih(4) by (rule closedFrom_append[rotated])
  then show ?case using ih(1,2) e by simp
next
  case (3 n h)
  then show ?case by simp
next
  case (4 n h a as)
  from "4.prems"(3) obtain i t u d tg ch where c: "cellAt h a = Some (BookmarkObj i t u d tg ch)"
    by (auto split: option.splits cell.splits)
  from "4.prems"(3) c obtain ch' h0 where
    k: "(case ch of None \<Rightarrow> Some (None, h)
         | Some ca \<Rightarrow> (case angular_copy n h ca of None \<Rightarrow> None
                        | Some (ca', h1) \<Rightarrow> Some (Some ca', h1))) = Some (ch', h0)"
    by (auto split: option.splits)
  have kid: "take (length h) h0 = h \<and> length h \<le> length h0 \<and> closedFrom k h0
             \<and> set_option ch' \<subseteq> {length h..<length h0}"
  proof (cases ch)
    case None
    with k "4.prems"(2) show ?thesis by auto
  next
    case (Some ca)
    with k obtain ca' where r: "angular_copy n h ca = Some (ca', h0)" and ch': "ch' = Some ca'"
      by (auto split: option.splits)
    from "4.IH"(1)[OF c refl Some "4.prems"(1,2) r] ch' show ?thesis by auto
  qed
  let ?h2 = "h0 @ [BookmarkObj i t u d tg ch']"
  from "4.prems"(3) c k obtain bs where
    r2: "angular_copy_elems n ?h2 as = Some (bs, h1)" and e: "as' = length h0 # bs"
    by (auto simp: alloc_def split: option.splits)
  have "refs (BookmarkObj i t u d tg ch') \<subseteq> {k..<Suc (length h0)}"
    using kid "4.prems"(1) by auto
  then have cl2: "closedFrom k ?h2" using kid by (intro closedFrom_append) auto
  have k2: "k \<le> length ?h2" using kid "4.prems"(1) by simp
  have al: "(length h0, ?h2) = alloc (BookmarkObj i t u d tg ch') h0" by (simp add: alloc_def)
  from "4.IH"(2)[OF c refl k refl al k2 cl2 r2]
  have ih2: "take (length ?h2) h1 = ?h2" "length ?h2 \<le> length h1"
    "\<forall>e\<in>set bs. length ?h2 \<le> e \<and> e < length h1" "closedFrom k h1"
    by (auto simp: alloc_def)
  have "take (length h) h1 = take (length h) (take (length ?h2) h1)"
    using kid by (simp add: min_def)
  also have "\<dots> = take (length h) ?h2" using ih2(1) by simp
  also have "\<dots> = h" using kid by simp
  finally have "take (length h) h1 = h" .
  moreover have "\<forall>e\<in>set as'. length h \<le> e \<and> e < length h1"
    unfolding e using kid ih2(2,3) by auto
  moreover have "length h \<le> length h1" using kid ih2(2) by simp
  ultimately show ?case using ih2(4) by simp
qed

lemma findInArray_fresh:
  "closedFrom k h \<Longrightarrow> findInArray n h i arr = Some (Some r) \<Longrightarrow> k \<le> arr \<Longrightarrow> arr < length h
     \<Longrightarrow> k \<le> r \<and> r < length h"
  "closedFrom k h \<Longrightarrow> findInElems n h i as = Some (Some r)
     \<Longrightarrow> \<forall>e\<in>set as. k \<le> e \<and> e < length h \<Longrightarrow> k \<le> r \<and> r < length h"
proof (induction n h i arr and n h i as rule: findInArray_findInElems.induct)
  case (1 h i arr)
  then show ?case by simp
next
  case (2 n h i arr)
  from "2.prems"(2) obtain elems where c: "cellAt h arr = Some (ArrayObj elems)"
    and f: "findInElems n h i elems = Some (Some r)"
    by (auto split: option.splits cell.splits)
  from c have "h ! arr = ArrayObj elems" by (auto simp: cellAt_def split: if_splits)
  then have "set elems \<subseteq> {k..<length h}"
    using "2.prems"(1,3,4) unfolding closedFrom_def by (metis refs.simps(1))
  then have "\<forall>e\<in>set elems. k \<le> e \<and> e < length h" by auto
  with "2.IH"[OF c refl "2.prems"(1) f] show ?case by blast
next
  case (3 n h i)
  then show ?case by simp
next
  case (4 n h i a as)
  from "4.prems"(2) obtain bid t u d tg ch where c: "cellAt h a = Some (BookmarkObj bid t u d tg ch)"
    by (auto split: option.splits cell.splits)
  have a: "k \<le> a \<and> a < length h" using "4.prems"(3) by simp
  show ?case
  proof (cases "bid = i")
    case True
    with c "4.prems"(2) have "r = a" by simp
    with a show ?thesis by simp
  next
    case False
    show ?thesis
    proof (cases "case ch of None \<Rightarrow> Some None | Some ca \<Rightarrow> findInArray n h i ca")
      case None
      with c False "4.prems"(2) show ?thesis by simp
    next
      case (Some res)
      show ?thesis
      proof (cases res)
        case None
        with Some c False "4.prems"(2) have "findInElems n h i as = Some (Some r)" by simp
        moreover have "\<forall>e\<in>set as. k \<le> e \<and> e < length h" using "4.prems"(3) by simp
        ultimately show ?thesis using "4.IH"(2)[OF c refl False Some None "4.prems"(1)] by blast
      next
        case (Some r')
        with \<open>(case ch of None \<Rightarrow> Some None | Some ca \<Rightarrow> findInArray n h i ca) = Some res\<close>
        obtain ca where ch: "ch = Some ca" and f: "findInArray n h i ca = Some (Some r')"
          by (auto split: option.splits)
        from Some \<open>(case ch of None \<Rightarrow> Some None | Some ca \<Rightarrow> findInArray n h i ca) = Some res\<close>
          c False "4.prems"(2) have rr: "r' = r" by simp
        from c have "h ! a = BookmarkObj bid t u d tg ch" by (auto simp: cellAt_def split: if_splits)
        then have "set_option ch \<subseteq> {k..<length h}"
          using "4.prems"(1) a unfolding closedFrom_def by (metis refs.simps(2))
        then have "k \<le> ca" "ca < length h" using ch by auto
        with "4.IH"(1)[OF c refl False ch "4.prems"(1)] f rr show ?thesis by blast
      qed
    qed
  qed
qed

lemma newBookmarkH_extends:
  "newBookmarkH ident md h = (b, h2) \<Longrightarrow> \<exists>ext. h2 = h @ ext"
  by (auto simp: newBookmarkH_def alloc_def split: if_splits option.splits)

lemma addBookmarkH_frame:
  "take (length h) (snd (addBookmarkH fuel ident md parentId index bookmarks h)) = h"
proof (cases "angular_copy fuel h bookmarks")
  case None
  then show ?thesis by (simp add: addBookmarkH_def)
next
  case (Some cp)
  obtain updatedBookmarks h1 where cp: "cp = (updatedBookmarks, h1)" by (cases cp)
  have cl: "closedFrom (length h) h" unfolding closedFrom_def by auto
  from angular_copy_fresh(1)[OF le_refl cl Some[unfolded cp]]
  have c1: "take (length h) h1 = h" "length h \<le> updatedBookmarks" "updatedBookmarks < length h1"
    "closedFrom (length h) h1" by auto
  show ?thesis
  proof (cases "findInArray fuel h1 parentId updatedBookmarks")
    case None
    with Some cp c1 show ?thesis by (simp add: addBookmarkH_def)
  next
    case (Some found)
    note f = this
    show ?thesis
    proof (cases found)
      case None
      with f \<open>angular_copy fuel h bookmarks = Some cp\<close> cp c1 show ?thesis
        by (simp add: addBookmarkH_def)
    next
      case (Some parent)
      from findInArray_fresh(1)[OF c1(4) f[unfolded Some] c1(2,3)]
      have p: "length h \<le> parent" "parent < length h1" by auto
      obtain bookmark h2 where nb: "newBookmarkH ident md h1 = (bookmark, h2)"
        by (cases "newBookmarkH ident md h1")
      then obtain ext where ext: "h2 = h1 @ ext" using newBookmarkH_extends by blast
      have t2: "take (length h) h2 = h" using c1(1) p unfolding ext by simp
      have "\<And>ca elems x. cellAt h2 parent = Some (BookmarkObj x1 x2 x3 x4 x5 (Some ca)) \<Longrightarrow> length h \<le> ca"
        for x1 x2 x3 x4 x5
      proof -
        fix ca assume "cellAt h2 parent = Some (BookmarkObj x1 x2 x3 x4 x5 (Some ca))"
        then have "h1 ! parent = BookmarkObj x1 x2 x3 x4 x5 (Some ca)"
          using p unfolding ext by (auto simp: cellAt_def nth_append split: if_splits)
        then have "set_option (Some ca) \<subseteq> {length h..<length h1}"
          using c1(4) p unfolding closedFrom_def by (metis refs.simps(2))
        then show "length h \<le> ca" by simp
      qed
      then have upd: "\<And>x1 x2 x3 x4 x5 ca c. cellAt h2 parent = Some (BookmarkObj x1 x2 x3 x4 x5 (Some ca))
                        \<Longrightarrow> take (length h) (h2[ca := c]) = h"
        using t2 by simp
      show ?thesis
        using \<open>angular_copy fuel h bookmarks = Some cp\<close> cp f Some nb t2 upd
        by (auto simp: addBookmarkH_def split: option.splits cell.splits)
    qed
  qed
qed


lemma cellAt_prefix:
  "take (length h) h' = h \<Longrightarrow> cellAt h a = Some c \<Longrightarrow> cellAt h' a = Some c"
proof -
  assume t: "take (length h) h' = h" and c: "cellAt h a = Some c"
  from c have a: "a < length h" "h ! a = c" by (auto simp: cellAt_def split: if_splits)
  from t have "length (take (length h) h') = length h" by simp
  then have "length h \<le> length h'" by simp
  moreover have "h' ! a = h ! a" using t a(1) by (metis nth_take)
  ultimately show ?thesis using a by (simp add: cellAt_def)
qed

lemma treeAt_prefix:
  "take (length h) h' = h \<Longrightarrow> treeAt n h arr = Some t \<Longrightarrow> treeAt n h' arr = Some t"
  "take (length h) h' = h \<Longrightarrow> nodesAt n h as = Some t \<Longrightarrow> nodesAt n h' as = Some t"
proof (induction n h arr and n h as arbitrary: t and t rule: treeAt_nodesAt.induct)
  case (1 h arr)
  then show ?case by simp
next
  case (2 n h arr)
  from "2.prems"(2) obtain elems where c: "cellAt h arr = Some (ArrayObj elems)"
    and r: "nodesAt n h elems = Some t"
    by (auto split: option.splits cell.splits)
  from cellAt_prefix[OF "2.prems"(1) c] "2.IH"[OF c refl "2.prems"(1) r] show ?case by simp
next
  case (3 n h)
  then show ?case by simp
next
  case (4 n h a as)
  from "4.prems"(2) obtain i tt u d tg ch children bs where
    c: "cellAt h a = Some (BookmarkObj i tt u d tg ch)"
    and k: "(case ch of None \<Rightarrow> Some None | Some ca \<Rightarrow> map_option Some (treeAt n h ca)) = Some children"
    and r: "nodesAt n h as = Some bs" and t: "t = Bookmark i tt u d tg children # bs"
    by (auto split: option.splits cell.splits)
  have k': "(case ch of None \<Rightarrow> Some None | Some ca \<Rightarrow> map_option Some (treeAt n h' ca)) = Some children"
  proof (cases ch)
    case None
    with k show ?thesis by simp
  next
    case (Some ca)
    with k obtain cs where "treeAt n h ca = Some cs" "children = Some cs" by auto
    with "4.IH"(1)[OF c refl Some "4.prems"(1)] Some show ?thesis by simp
  qed
  from "4.IH"(2)[OF c refl k "4.prems"(1) r] have "nodesAt n h' as = Some bs" .
  with cellAt_prefix[OF "4.prems"(1) c] k' t show ?case by simp
qed

lemma addBookmarkH_result_fresh:
  assumes "fst (addBookmarkH fuel ident md parentId index bookmarks h) = Some (Inr (bookmark, updatedBookmarks))"
  shows "length h \<le> bookmark \<and> length h \<le> updatedBookmarks"
proof -
  from assms obtain u h1 where cp: "angular_copy fuel h bookmarks = Some (u, h1)"
    by (auto simp: addBookmarkH_def split: option.splits)
  have cl: "closedFrom (length h) h" unfolding closedFrom_def by auto
  from angular_copy_fresh(1)[OF le_refl cl cp]
  have c1: "length h \<le> u" "u < length h1" by auto
  from assms cp obtain h2 where nb: "newBookmarkH ident md h1 = (bookmark, h2)" and u: "updatedBookmarks = u"
    by (auto simp: addBookmarkH_def split: option.splits prod.splits cell.splits)
  from nb have "length h1 \<le> bookmark"
    by (auto simp: newBookmarkH_def alloc_def split: if_splits option.splits)
  with c1 u show ?thesis by simp
qed

lemma closedFrom_length: "closedFrom (length h) h"
  unfolding closedFrom_def by auto

lemma angular_copy_extends:
  "angular_copy n h arr = Some (a', h1) \<Longrightarrow> take (length h) h1 = h \<and> a' < length h1"
  "angular_copy_elems n h as = Some (as', h1) \<Longrightarrow> take (length h) h1 = h"
proof -
  show "take (length h) h1 = h \<and> a' < length h1" if "angular_copy n h arr = Some (a', h1)"
    using angular_copy_fresh(1)[OF le_refl closedFrom_length that] by simp
  show "take (length h) h1 = h" if "angular_copy_elems n h as = Some (as', h1)"
    using angular_copy_fresh(2)[OF le_refl closedFrom_length that] by simp
qed

lemma nodesAt_Cons:
  "nodesAt n h (a # as) = Some ts \<longleftrightarrow>
     (\<exists>p bs. nodesAt n h [a] = Some [p] \<and> nodesAt n h as = Some bs \<and> ts = p # bs)"
  by (auto split: option.splits cell.splits)

lemma angular_copy_correct:
  "treeAt n h arr = Some t \<Longrightarrow>
     \<exists>a' h1. angular_copy n h arr = Some (a', h1) \<and> treeAt n h1 a' = Some t"
  "nodesAt n h as = Some ts \<Longrightarrow>
     \<exists>as' h1. angular_copy_elems n h as = Some (as', h1) \<and> nodesAt n h1 as' = Some ts"
proof (induction n h arr and n h as arbitrary: t and ts rule: angular_copy_angular_copy_elems.induct)
  case (1 h arr)
  then show ?case by simp
next
  case (2 n h arr)
  from "2.prems" obtain elems where c: "cellAt h arr = Some (ArrayObj elems)"
    and r: "nodesAt n h elems = Some t"
    by (auto split: option.splits cell.splits)
  from "2.IH"[OF c refl r] obtain elems' h0 where
    cp: "angular_copy_elems n h elems = Some (elems', h0)" and n0: "nodesAt n h0 elems' = Some t"
    by blast
  let ?h1 = "h0 @ [ArrayObj elems']"
  have "take (length h0) ?h1 = h0" by simp
  then have "nodesAt n ?h1 elems' = Some t" using n0 by (rule treeAt_prefix(2))
  then have "treeAt (Suc n) ?h1 (length h0) = Some t" by (simp add: cellAt_def)
  moreover have "angular_copy (Suc n) h arr = Some (length h0, ?h1)"
    using c cp by (simp add: alloc_def)
  ultimately show ?case by blast
next
  case (3 n h)
  then show ?case by simp
next
  case (4 n h a as)
  from "4.prems" obtain i tt u d tg ch children bs where
    c: "cellAt h a = Some (BookmarkObj i tt u d tg ch)"
    and k: "(case ch of None \<Rightarrow> Some None | Some ca \<Rightarrow> map_option Some (treeAt n h ca)) = Some children"
    and r: "nodesAt n h as = Some bs" and ts: "ts = Bookmark i tt u d tg children # bs"
    by (auto split: option.splits cell.splits)
  have "\<exists>ch' h0. (case ch of None \<Rightarrow> Some (None, h)
                     | Some ca \<Rightarrow> (case angular_copy n h ca of None \<Rightarrow> None
                                    | Some (ca', h1) \<Rightarrow> Some (Some ca', h1))) = Some (ch', h0)
           \<and> take (length h) h0 = h
           \<and> (case ch' of None \<Rightarrow> Some None | Some ca \<Rightarrow> map_option Some (treeAt n h0 ca)) = Some children"
  proof (cases ch)
    case None
    with k show ?thesis by simp
  next
    case (Some ca)
    with k obtain cs where t: "treeAt n h ca = Some cs" and ch: "children = Some cs" by auto
    from "4.IH"(1)[OF c refl Some t] obtain ca' h0 where
      cp: "angular_copy n h ca = Some (ca', h0)" and t0: "treeAt n h0 ca' = Some cs" by blast
    from angular_copy_extends(1)[OF cp] have "take (length h) h0 = h" by simp
    with Some cp t0 ch show ?thesis by simp
  qed
  then obtain ch' h0 where
    kc: "(case ch of None \<Rightarrow> Some (None, h)
          | Some ca \<Rightarrow> (case angular_copy n h ca of None \<Rightarrow> None
                         | Some (ca', h1) \<Rightarrow> Some (Some ca', h1))) = Some (ch', h0)"
    and ex0: "take (length h) h0 = h"
    and k0: "(case ch' of None \<Rightarrow> Some None | Some ca \<Rightarrow> map_option Some (treeAt n h0 ca)) = Some children"
    by blast
  let ?obj = "BookmarkObj i tt u d tg ch'"
  let ?h2 = "h0 @ [?obj]"
  have len0: "length h \<le> length h0"
  proof -
    from ex0 have "length (take (length h) h0) = length h" by simp
    then show ?thesis by simp
  qed
  have ex2: "take (length h) ?h2 = h" using ex0 len0 by simp
  have r2: "nodesAt n ?h2 as = Some bs" using ex2 r by (rule treeAt_prefix(2))
  have al: "(length h0, ?h2) = alloc ?obj h0" by (simp add: alloc_def)
  from "4.IH"(2)[OF c refl kc refl al r2] obtain as' h3 where
    cp3: "angular_copy_elems n ?h2 as = Some (as', h3)" and n3: "nodesAt n h3 as' = Some bs" by blast
  from angular_copy_extends(2)[OF cp3] have ex3: "take (length ?h2) h3 = ?h2" .
  have "cellAt ?h2 (length h0) = Some ?obj" by (simp add: cellAt_def)
  with ex3 have c3: "cellAt h3 (length h0) = Some ?obj" by (rule cellAt_prefix)
  have ex03: "take (length h0) h3 = h0"
  proof -
    have "take (length h0) h3 = take (length h0) (take (length ?h2) h3)" by (simp add: min_def)
    also have "\<dots> = take (length h0) ?h2" by (simp only: ex3)
    also have "\<dots> = h0" by simp
    finally show ?thesis .
  qed
  have k3: "(case ch' of None \<Rightarrow> Some None | Some ca \<Rightarrow> map_option Some (treeAt n h3 ca)) = Some children"
  proof (cases ch')
    case None
    with k0 show ?thesis by simp
  next
    case (Some ca)
    with k0 obtain cs where "treeAt n h0 ca = Some cs" "children = Some cs" by auto
    with treeAt_prefix(1)[OF ex03] Some show ?thesis by simp
  qed
  have "nodesAt n h3 (length h0 # as') = Some ts"
    using c3 k3 n3 ts by simp
  moreover have "angular_copy_elems n h (a # as) = Some (length h0 # as', h3)"
    using c kc cp3 by (simp add: alloc_def)
  ultimately show ?case by blast
qed

lemma findInArray_correct:
  "treeAt n h arr = Some t \<Longrightarrow>
     (findBookmarkById i t = None \<longrightarrow> findInArray n h i arr = Some None)
     \<and> (\<forall>p. findBookmarkById i t = Some p
            \<longrightarrow> (\<exists>a m. findInArray n h i arr = Some (Some a) \<and> nodesAt m h [a] = Some [p]))"
  "nodesAt n h as = Some ts \<Longrightarrow>
     (findBookmarkById i ts = None \<longrightarrow> findInElems n h i as = Some None)
     \<and> (\<forall>p. findBookmarkById i ts = Some p
            \<longrightarrow> (\<exists>a m. findInElems n h i as = Some (Some a) \<and> nodesAt m h [a] = Some [p]))"
proof (induction n h i arr and n h i as arbitrary: t and ts rule: findInArray_findInElems.induct)
  case (1 h i arr)
  then show ?case by simp
next
  case (2 n h i arr)
  from "2.prems" obtain elems where c: "cellAt h arr = Some (ArrayObj elems)"
    and r: "nodesAt n h elems = Some t"
    by (auto split: option.splits cell.splits)
  from "2.IH"[OF c refl r] c show ?case by simp
next
  case (3 n h i)
  then show ?case by simp
next
  case (4 n h i a as)
  from "4.prems" obtain bid tt u d tg ch children bs where
    c: "cellAt h a = Some (BookmarkObj bid tt u d tg ch)"
    and k: "(case ch of None \<Rightarrow> Some None | Some ca \<Rightarrow> map_option Some (treeAt n h ca)) = Some children"
    and r: "nodesAt n h as = Some bs" and ts: "ts = Bookmark bid tt u d tg children # bs"
    by (auto split: option.splits cell.splits)
  show ?case
  proof (cases "bid = i")
    case True
    have "nodesAt n h [a] = Some [Bookmark bid tt u d tg children]" using c k by simp
    then show ?thesis using True c ts by auto
  next
    case False
    show ?thesis
    proof (cases ch)
      case None
      with k have ch0: "children = None" by simp
      have s: "(case ch of None \<Rightarrow> Some None | Some ca \<Rightarrow> findInArray n h i ca) = Some None"
        using None by simp
      from "4.IH"(2)[OF c refl False s refl r] show ?thesis
        using False c None ts ch0 by simp
    next
      case (Some ca)
      with k obtain cs where t: "treeAt n h ca = Some cs" and chs: "children = Some cs" by auto
      from "4.IH"(1)[OF c refl False Some t]
      have ih1: "findBookmarkById i cs = None \<longrightarrow> findInArray n h i ca = Some None"
        "\<forall>p. findBookmarkById i cs = Some p
            \<longrightarrow> (\<exists>a m. findInArray n h i ca = Some (Some a) \<and> nodesAt m h [a] = Some [p])"
        by auto
      show ?thesis
      proof (cases "findBookmarkById i cs")
        case None
        with ih1 have s: "(case ch of None \<Rightarrow> Some None | Some ca \<Rightarrow> findInArray n h i ca) = Some None"
          using Some by simp
        from "4.IH"(2)[OF c refl False s refl r] show ?thesis
          using False c Some ts chs None s by simp
      next
        case (Some p)
        with ih1 obtain a' m where "findInArray n h i ca = Some (Some a')" "nodesAt m h [a'] = Some [p]"
          by blast
        then show ?thesis using False c \<open>ch = Some ca\<close> ts chs Some by auto
      qed
    qed
  qed
qed

lemma treeAt_Some_cell:
  "treeAt m h arr = Some cs \<Longrightarrow> \<exists>elems. cellAt h arr = Some (ArrayObj elems)"
  by (cases m) (auto split: option.splits cell.splits)

lemma addBookmarkH_agrees:
  assumes "treeAt n h bookmarks = Some t"
  shows "case addBookmark md parentId index t of
           Inl e \<Rightarrow> fst (addBookmarkH n ident md parentId index bookmarks h) = Some (Inl e)
         | Inr res \<Rightarrow> (\<exists>b u. fst (addBookmarkH n ident md parentId index bookmarks h) = Some (Inr (b, u)))"
proof -
  from angular_copy_correct(1)[OF assms] obtain u h1 where
    cp: "angular_copy n h bookmarks = Some (u, h1)" and t1: "treeAt n h1 u = Some t" by blast
  note fc = findInArray_correct(1)[OF t1, of parentId]
  show ?thesis
  proof (cases "findBookmarkById parentId t")
    case None
    with fc have "findInArray n h1 parentId u = Some None" by simp
    with cp None show ?thesis by (simp add: addBookmarkH_def addBookmark_def)
  next
    case (Some p)
    with fc obtain a m where f: "findInArray n h1 parentId u = Some (Some a)"
      and na: "nodesAt m h1 [a] = Some [p]" by blast
    from na obtain i tt u' d tg ch children where
      c: "cellAt h1 a = Some (BookmarkObj i tt u' d tg ch)"
      and k: "(case ch of None \<Rightarrow> Some None | Some ca \<Rightarrow> map_option Some (treeAt m h1 ca)) = Some children"
      and p: "p = Bookmark i tt u' d tg children"
      by (auto split: option.splits cell.splits)
    obtain b h2 where nb: "newBookmarkH ident md h1 = (b, h2)" by (cases "newBookmarkH ident md h1")
    then obtain ext where "h2 = h1 @ ext" using newBookmarkH_extends by blast
    then have ex: "take (length h1) h2 = h1" by simp
    from cellAt_prefix[OF ex c] have c2: "cellAt h2 a = Some (BookmarkObj i tt u' d tg ch)" .
    show ?thesis
    proof (cases ch)
      case None
      with k p have "b_children p = None" by auto
      with Some have "addBookmark md parentId index t = Inl TypeError"
        by (simp add: addBookmark_def Let_def)
      moreover have "fst (addBookmarkH n ident md parentId index bookmarks h) = Some (Inl TypeError)"
        using cp f nb c2 None by (simp add: addBookmarkH_def)
      ultimately show ?thesis by simp
    next
      case (Some ca)
      with k obtain cs where tc: "treeAt m h1 ca = Some cs" and ch: "children = Some cs" by auto
      from treeAt_Some_cell[OF tc] obtain elems where "cellAt h1 ca = Some (ArrayObj elems)" by blast
      from cellAt_prefix[OF ex this] have ca2: "cellAt h2 ca = Some (ArrayObj elems)" .
      from ch p \<open>findBookmarkById parentId t = Some p\<close>
      have "\<exists>res. addBookmark md parentId index t = Inr res"
        by (simp add: addBookmark_def Let_def)
      moreover have "\<exists>b u. fst (addBookmarkH n ident md parentId index bookmarks h) = Some (Inr (b, u))"
        using cp f nb c2 Some ca2 by (simp add: addBookmarkH_def)
      ultimately show ?thesis by auto
    qed
  qed
qed

lemma cellAt_update: "a \<noteq> c \<Longrightarrow> cellAt (h[c := x]) a = cellAt h a"
  by (simp add: cellAt_def)

lemma treeAt_update:
  "c \<notin> set (cellsAt n h arr) \<Longrightarrow> treeAt n (h[c := x]) arr = treeAt n h arr"
  "c \<notin> set (cellsOf n h as) \<Longrightarrow> nodesAt n (h[c := x]) as = nodesAt n h as"
proof (induction n h arr and n h as rule: treeAt_nodesAt.induct)
  case (1 h arr)
  then show ?case by simp
next
  case (2 n h arr)
  from "2.prems" have ne: "arr \<noteq> c" by auto
  show ?case
  proof (cases "cellAt h arr")
    case None
    then show ?thesis using ne by (simp add: cellAt_update)
  next
    case (Some cl)
    show ?thesis
    proof (cases cl)
      case (BookmarkObj x1 x2 x3 x4 x5 x6)
      with Some ne show ?thesis by (simp add: cellAt_update)
    next
      case (ArrayObj elems)
      with Some "2.prems" have "c \<notin> set (cellsOf n h elems)" by simp
      from "2.IH"[OF Some[unfolded ArrayObj] refl this] Some ArrayObj ne show ?thesis
        by (simp add: cellAt_update)
    qed
  qed
next
  case (3 n h)
  then show ?case by simp
next
  case (4 n h a as)
  from "4.prems" have ne: "a \<noteq> c" and rest: "c \<notin> set (cellsOf n h as)" by auto
  show ?case
  proof (cases "cellAt h a")
    case None
    then show ?thesis using ne by (simp add: cellAt_update)
  next
    case (Some cl)
    show ?thesis
    proof (cases cl)
      case (ArrayObj elems)
      with Some ne show ?thesis by (simp add: cellAt_update)
    next
      case (BookmarkObj i t u d tg ch)
      note c = Some[unfolded BookmarkObj]
      have k: "(case ch of None \<Rightarrow> Some None | Some ca \<Rightarrow> map_option Some (treeAt n (h[c := x]) ca))
             = (case ch of None \<Rightarrow> Some None | Some ca \<Rightarrow> map_option Some (treeAt n h ca))"
      proof (cases ch)
        case None
        then show ?thesis by simp
      next
        case (Some ca)
        with "4.prems" c have "c \<notin> set (cellsAt n h ca)" by simp
        from "4.IH"(1)[OF c refl Some this] Some show ?thesis by simp
      qed
      show ?thesis
      proof (cases "case ch of None \<Rightarrow> Some None | Some ca \<Rightarrow> map_option Some (treeAt n h ca)")
        case None
        with k c ne show ?thesis by (simp add: cellAt_update)
      next
        case (Some children)
        from "4.IH"(2)[OF c refl Some rest] k Some c ne show ?thesis
          by (simp add: cellAt_update)
      qed
    qed
  qed
qed

lemma treeAt_mono:
  "treeAt n h arr = Some t \<Longrightarrow> treeAt (Suc n) h arr = Some t"
  "nodesAt n h as = Some ts \<Longrightarrow> nodesAt (Suc n) h as = Some ts"
proof (induction n h arr and n h as arbitrary: t and ts rule: treeAt_nodesAt.induct)
  case (1 h arr)
  then show ?case by simp
next
  case (2 n h arr)
  from "2.prems" obtain elems where c: "cellAt h arr = Some (ArrayObj elems)"
    and r: "nodesAt n h elems = Some t"
    by (auto split: option.splits cell.splits)
  from "2.IH"[OF c refl r] c show ?case by simp
next
  case (3 n h)
  then show ?case by simp
next
  case (4 n h a as)
  from "4.prems" obtain i tt u d tg ch children bs where
    c: "cellAt h a = Some (BookmarkObj i tt u d tg ch)"
    and k: "(case ch of None \<Rightarrow> Some None | Some ca \<Rightarrow> map_option Some (treeAt n h ca)) = Some children"
    and r: "nodesAt n h as = Some bs" and ts: "ts = Bookmark i tt u d tg children # bs"
    by (auto split: option.splits cell.splits)
  have k': "(case ch of None \<Rightarrow> Some None | Some ca \<Rightarrow> map_option Some (treeAt (Suc n) h ca)) = Some children"
  proof (cases ch)
    case None
    with k show ?thesis by simp
  next
    case (Some ca)
    with k obtain cs where "treeAt n h ca = Some cs" "children = Some cs" by auto
    with "4.IH"(1)[OF c refl Some] Some show ?thesis by simp
  qed
  from "4.IH"(2)[OF c refl k r] have "nodesAt (Suc n) h as = Some bs" .
  with c k' ts show ?case by simp
qed

lemma nodesAt_mono_le: "nodesAt n h as = Some ts \<Longrightarrow> n \<le> m \<Longrightarrow> nodesAt m h as = Some ts"
  by (induction m) (auto simp: le_Suc_eq intro: treeAt_mono(2))


lemma cellsAt_prefix:
  "take (length h) h' = h \<Longrightarrow> treeAt n h arr = Some t \<Longrightarrow> cellsAt n h' arr = cellsAt n h arr"
  "take (length h) h' = h \<Longrightarrow> nodesAt n h as = Some ts \<Longrightarrow> cellsOf n h' as = cellsOf n h as"
proof (induction n h arr and n h as arbitrary: t and ts rule: treeAt_nodesAt.induct)
  case (1 h arr)
  then show ?case by simp
next
  case (2 n h arr)
  from "2.prems"(2) obtain elems where c: "cellAt h arr = Some (ArrayObj elems)"
    and r: "nodesAt n h elems = Some t"
    by (auto split: option.splits cell.splits)
  from cellAt_prefix[OF "2.prems"(1) c] "2.IH"[OF c refl "2.prems"(1) r] c show ?case by simp
next
  case (3 n h)
  then show ?case by simp
next
  case (4 n h a as)
  from "4.prems"(2) obtain i tt u d tg ch children bs where
    c: "cellAt h a = Some (BookmarkObj i tt u d tg ch)"
    and k: "(case ch of None \<Rightarrow> Some None | Some ca \<Rightarrow> map_option Some (treeAt n h ca)) = Some children"
    and r: "nodesAt n h as = Some bs" and t: "ts = Bookmark i tt u d tg children # bs"
    by (auto split: option.splits cell.splits)
  note c' = cellAt_prefix[OF "4.prems"(1) c]
  have k': "(case ch of None \<Rightarrow> [] | Some ca \<Rightarrow> cellsAt n h' ca)
          = (case ch of None \<Rightarrow> [] | Some ca \<Rightarrow> cellsAt n h ca)"
  proof (cases ch)
    case None
    then show ?thesis by simp
  next
    case (Some ca)
    with k obtain cs where "treeAt n h ca = Some cs" by auto
    with "4.IH"(1)[OF c refl Some "4.prems"(1)] Some show ?thesis by simp
  qed
  from "4.IH"(2)[OF c refl k "4.prems"(1) r] have "cellsOf n h' as = cellsOf n h as" .
  with c c' k' show ?case by (cases ch) simp_all
qed

lemma findInArray_prefix:
  "take (length h) h' = h \<Longrightarrow> findInArray n h i arr = Some x \<Longrightarrow> findInArray n h' i arr = Some x"
  "take (length h) h' = h \<Longrightarrow> findInElems n h i as = Some x \<Longrightarrow> findInElems n h' i as = Some x"
proof (induction n h i arr and n h i as arbitrary: x and x rule: findInArray_findInElems.induct)
  case (1 h i arr)
  then show ?case by simp
next
  case (2 n h i arr)
  from "2.prems"(2) obtain elems where c: "cellAt h arr = Some (ArrayObj elems)"
    and f: "findInElems n h i elems = Some x"
    by (auto split: option.splits cell.splits)
  from cellAt_prefix[OF "2.prems"(1) c] "2.IH"[OF c refl "2.prems"(1) f] show ?case by simp
next
  case (3 n h i)
  then show ?case by simp
next
  case (4 n h i a as)
  from "4.prems"(2) obtain bid t u d tg ch where c: "cellAt h a = Some (BookmarkObj bid t u d tg ch)"
    by (auto split: option.splits cell.splits)
  note c' = cellAt_prefix[OF "4.prems"(1) c]
  show ?case
  proof (cases "bid = i")
    case True
    with c c' "4.prems"(2) show ?thesis by simp
  next
    case False
    from "4.prems"(2) c False obtain res where
      s: "(case ch of None \<Rightarrow> Some None | Some ca \<Rightarrow> findInArray n h i ca) = Some res"
      by (auto split: option.splits)
    have s': "(case ch of None \<Rightarrow> Some None | Some ca \<Rightarrow> findInArray n h' i ca) = Some res"
    proof (cases ch)
      case None
      with s show ?thesis by simp
    next
      case (Some ca)
      with s have "findInArray n h i ca = Some res" by simp
      from "4.IH"(1)[OF c refl False Some "4.prems"(1) this] Some show ?thesis by simp
    qed
    show ?thesis
    proof (cases res)
      case None
      with s c False "4.prems"(2) have "findInElems n h i as = Some x" by simp
      from "4.IH"(2)[OF c refl False s None "4.prems"(1) this] s' None c' False show ?thesis by simp
    next
      case (Some r)
      with s c False "4.prems"(2) have "x = Some r" by simp
      with s' Some c' False show ?thesis by simp
    qed
  qed
qed

lemma nodesAt_length: "nodesAt n h as = Some ts \<Longrightarrow> length ts = length as"
  by (induction as arbitrary: ts) (auto split: option.splits cell.splits)

lemma nodesAt_append:
  "nodesAt n h xs = Some as \<Longrightarrow> nodesAt n h ys = Some bs \<Longrightarrow> nodesAt n h (xs @ ys) = Some (as @ bs)"
  by (induction xs arbitrary: as) (auto split: option.splits cell.splits)

lemma nodesAt_take_drop:
  "nodesAt n h xs = Some ts \<Longrightarrow>
     nodesAt n h (take k xs) = Some (take k ts) \<and> nodesAt n h (drop k xs) = Some (drop k ts)"
proof (induction xs arbitrary: ts k)
  case Nil
  then show ?case by simp
next
  case (Cons a xs)
  from nodesAt_Cons[THEN iffD1, OF Cons.prems]
  obtain p bs where p: "nodesAt n h [a] = Some [p]" and r: "nodesAt n h xs = Some bs"
    and ts: "ts = p # bs" by blast
  show ?case
  proof (cases k)
    case 0
    with Cons.prems show ?thesis by simp
  next
    case (Suc j)
    from Cons.IH[OF r, of j] have ih: "nodesAt n h (take j xs) = Some (take j bs)"
      "nodesAt n h (drop j xs) = Some (drop j bs)" by auto
    from nodesAt_append[OF p ih(1)] have "nodesAt n h (a # take j xs) = Some (p # take j bs)" by simp
    with ih(2) Suc ts show ?thesis by simp
  qed
qed

lemma nodesAt_splice:
  assumes "nodesAt n h xs = Some ts" and "nodesAt n h [b] = Some [nb]"
  shows "nodesAt n h (splice index b xs) = Some (splice index nb ts)"
proof -
  let ?k = "spliceStart index (length xs)"
  from nodesAt_take_drop[OF assms(1), of ?k]
  have td: "nodesAt n h (take ?k xs) = Some (take ?k ts)" "nodesAt n h (drop ?k xs) = Some (drop ?k ts)"
    by auto
  from nodesAt_append[OF assms(2) td(2)] have "nodesAt n h (b # drop ?k xs) = Some (nb # drop ?k ts)"
    by simp
  from nodesAt_append[OF td(1) this] nodesAt_length[OF assms(1)] show ?thesis
    by (simp add: splice_def Let_def)
qed


lemma take_length_le: "take (length h) h' = h \<Longrightarrow> length h \<le> length h'"
proof -
  assume "take (length h) h' = h"
  then have "length (take (length h) h') = length h" by simp
  then show ?thesis by simp
qed

lemma take_take_prefix:
  assumes "take (length h2) h3 = h2" and "take (length h0) h2 = h0"
  shows "take (length h0) h3 = h0"
proof -
  from take_length_le[OF assms(2)] have "take (length h0) h3 = take (length h0) (take (length h2) h3)"
    by (simp add: min_def)
  also have "\<dots> = take (length h0) h2" by (simp only: assms(1))
  also have "\<dots> = h0" by (rule assms(2))
  finally show ?thesis .
qed

lemma angular_copy_shape:
  "treeAt n h arr = Some t \<Longrightarrow> angular_copy n h arr = Some (a', h1) \<Longrightarrow>
     distinct (cellsAt n h1 a') \<and> set (cellsAt n h1 a') \<subseteq> {length h..<length h1}"
  "nodesAt n h as = Some ts \<Longrightarrow> angular_copy_elems n h as = Some (as', h1) \<Longrightarrow>
     distinct (cellsOf n h1 as') \<and> set (cellsOf n h1 as') \<subseteq> {length h..<length h1}"
proof (induction n h arr and n h as arbitrary: t a' h1 and ts as' h1
         rule: angular_copy_angular_copy_elems.induct)
  case (1 h arr)
  then show ?case by simp
next
  case (2 n h arr)
  from "2.prems"(1) obtain elems where c: "cellAt h arr = Some (ArrayObj elems)"
    and r: "nodesAt n h elems = Some t"
    by (auto split: option.splits cell.splits)
  from "2.prems"(2) c obtain elems' h0 where
    cp: "angular_copy_elems n h elems = Some (elems', h0)"
    and e: "a' = length h0" "h1 = h0 @ [ArrayObj elems']"
    by (auto simp: alloc_def split: option.splits)
  from "2.IH"[OF c refl r cp]
  have ih: "distinct (cellsOf n h0 elems')" "set (cellsOf n h0 elems') \<subseteq> {length h..<length h0}"
    by auto
  from angular_copy_correct(2)[OF r] cp have n0: "nodesAt n h0 elems' = Some t" by auto
  have "take (length h0) h1 = h0" unfolding e by simp
  from cellsAt_prefix(2)[OF this n0] have eq: "cellsOf n h1 elems' = cellsOf n h0 elems'" .
  from angular_copy_extends(2)[OF cp] have "length h \<le> length h0" by (rule take_length_le)
  moreover have "cellAt h1 a' = Some (ArrayObj elems')" unfolding e by (simp add: cellAt_def)
  ultimately show ?case using ih eq e by auto
next
  case (3 n h)
  then show ?case by simp
next
  case (4 n h a as)
  from "4.prems"(1) obtain i tt u d tg ch children bs where
    c: "cellAt h a = Some (BookmarkObj i tt u d tg ch)"
    and k: "(case ch of None \<Rightarrow> Some None | Some ca \<Rightarrow> map_option Some (treeAt n h ca)) = Some children"
    and r: "nodesAt n h as = Some bs" and ts: "ts = Bookmark i tt u d tg children # bs"
    by (auto split: option.splits cell.splits)
  from "4.prems"(2) c obtain ch' h0 where
    kc: "(case ch of None \<Rightarrow> Some (None, h)
          | Some ca \<Rightarrow> (case angular_copy n h ca of None \<Rightarrow> None
                         | Some (ca', h1) \<Rightarrow> Some (Some ca', h1))) = Some (ch', h0)"
    by (auto split: option.splits)
  let ?kids = "case ch' of None \<Rightarrow> [] | Some ca' \<Rightarrow> cellsAt n h0 ca'"
  have kid: "take (length h) h0 = h \<and> distinct ?kids \<and> set ?kids \<subseteq> {length h..<length h0}
             \<and> (\<forall>ca'. ch' = Some ca' \<longrightarrow> (\<exists>cs. treeAt n h0 ca' = Some cs))"
  proof (cases ch)
    case None
    with kc show ?thesis by auto
  next
    case (Some ca)
    with kc obtain ca' where cp: "angular_copy n h ca = Some (ca', h0)" and ch': "ch' = Some ca'"
      by (auto split: option.splits)
    from Some k obtain cs where t: "treeAt n h ca = Some cs" by auto
    from angular_copy_correct(1)[OF t] cp have "treeAt n h0 ca' = Some cs" by auto
    with "4.IH"(1)[OF c refl Some t cp] angular_copy_extends(1)[OF cp] ch' show ?thesis by auto
  qed
  let ?obj = "BookmarkObj i tt u d tg ch'"
  let ?h2 = "h0 @ [?obj]"
  from "4.prems"(2) c kc obtain bs' where
    cp3: "angular_copy_elems n ?h2 as = Some (bs', h1)" and e: "as' = length h0 # bs'"
    by (auto simp: alloc_def split: option.splits)
  from kid have len0: "length h \<le> length h0" by (intro take_length_le) simp
  have ex2: "take (length h) ?h2 = h" using kid len0 by simp
  have r2: "nodesAt n ?h2 as = Some bs" using ex2 r by (rule treeAt_prefix(2))
  have al: "(length h0, ?h2) = alloc ?obj h0" by (simp add: alloc_def)
  from "4.IH"(2)[OF c refl kc refl al r2 cp3]
  have ih2: "distinct (cellsOf n h1 bs')" "set (cellsOf n h1 bs') \<subseteq> {length ?h2..<length h1}"
    by auto
  from angular_copy_extends(2)[OF cp3] have ex3: "take (length ?h2) h1 = ?h2" .
  then have len3: "length ?h2 \<le> length h1" by (rule take_length_le)
  have "cellAt ?h2 (length h0) = Some ?obj" by (simp add: cellAt_def)
  with ex3 have c3: "cellAt h1 (length h0) = Some ?obj" by (rule cellAt_prefix)
  have ex03: "take (length h0) h1 = h0" using ex3 by (rule take_take_prefix) simp
  have kids3: "(case ch' of None \<Rightarrow> [] | Some ca' \<Rightarrow> cellsAt n h1 ca') = ?kids"
  proof (cases ch')
    case None
    then show ?thesis by simp
  next
    case (Some ca')
    with kid obtain cs where "treeAt n h0 ca' = Some cs" by blast
    from cellsAt_prefix(1)[OF ex03 this] Some show ?thesis by simp
  qed
  have cells: "cellsOf n h1 as' = length h0 # ?kids @ cellsOf n h1 bs'"
    unfolding e using c3 kids3 by (cases ch') simp_all
  have lo: "\<And>x. x \<in> set ?kids \<Longrightarrow> x < length h0" using kid by auto
  have hi: "\<And>x. x \<in> set (cellsOf n h1 bs') \<Longrightarrow> length h0 < x" using ih2(2) by auto
  have d1: "length h0 \<notin> set ?kids" using lo by blast
  have d2: "length h0 \<notin> set (cellsOf n h1 bs')" using hi by blast
  have d3: "set ?kids \<inter> set (cellsOf n h1 bs') = {}"
  proof (rule ccontr)
    assume "set ?kids \<inter> set (cellsOf n h1 bs') \<noteq> {}"
    then obtain x where "x \<in> set ?kids" "x \<in> set (cellsOf n h1 bs')" by blast
    with lo[of x] hi[of x] show False by simp
  qed
  have "distinct (length h0 # ?kids @ cellsOf n h1 bs')"
    using kid ih2(1) d1 d2 d3 by simp
  moreover have "set (length h0 # ?kids @ cellsOf n h1 bs') \<subseteq> {length h..<length h1}"
    using kid ih2 len0 len3 by (auto simp: subset_eq)
  ultimately show ?case unfolding cells by simp
qed

lemma cellsAt_self: "c \<in> set (cellsAt n h c)"
  by (cases n) simp_all

lemma findInArray_cells:
  "findInArray n h i arr = Some (Some r) \<Longrightarrow> cellAt h r = Some (BookmarkObj ri rt ru rd rtg (Some c))
     \<Longrightarrow> c \<in> set (cellsAt n h arr)"
  "findInElems n h i as = Some (Some r) \<Longrightarrow> cellAt h r = Some (BookmarkObj ri rt ru rd rtg (Some c))
     \<Longrightarrow> c \<in> set (cellsOf n h as)"
proof (induction n h i arr and n h i as rule: findInArray_findInElems.induct)
  case (1 h i arr)
  then show ?case by simp
next
  case (2 n h i arr)
  from "2.prems"(1) obtain elems where c: "cellAt h arr = Some (ArrayObj elems)"
    and f: "findInElems n h i elems = Some (Some r)"
    by (auto split: option.splits cell.splits)
  from "2.IH"[OF c refl f "2.prems"(2)] c show ?case by simp
next
  case (3 n h i)
  then show ?case by simp
next
  case (4 n h i a as)
  from "4.prems"(1) obtain bid t u d tg ch where c0: "cellAt h a = Some (BookmarkObj bid t u d tg ch)"
    by (auto split: option.splits cell.splits)
  show ?case
  proof (cases "bid = i")
    case True
    with c0 "4.prems"(1) have "r = a" by simp
    with c0 "4.prems"(2) have "ch = Some c" by simp
    with c0 show ?thesis by (simp add: cellsAt_self)
  next
    case False
    from "4.prems"(1) c0 False obtain res where
      s: "(case ch of None \<Rightarrow> Some None | Some ca \<Rightarrow> findInArray n h i ca) = Some res"
      by (auto split: option.splits)
    show ?thesis
    proof (cases res)
      case None
      with s c0 False "4.prems"(1) have "findInElems n h i as = Some (Some r)" by simp
      from "4.IH"(2)[OF c0 refl False s None this "4.prems"(2)] show ?thesis by simp
    next
      case (Some r')
      with s c0 False "4.prems"(1) have rr: "r' = r" by simp
      from s Some obtain ca where ch: "ch = Some ca" and f: "findInArray n h i ca = Some (Some r')"
        by (auto split: option.splits)
      from "4.IH"(1)[OF c0 refl False ch f[unfolded rr] "4.prems"(2)] c0 ch show ?thesis by simp
    qed
  qed
qed


lemma cellAt_update_eq: "cellAt h c = Some y \<Longrightarrow> cellAt (h[c := x]) c = Some x"
  by (auto simp: cellAt_def split: if_splits)

lemma splice_in_store:
  "cellAt h r = Some (BookmarkObj ri rt ru rd rtg (Some c)) \<Longrightarrow> cellAt h c = Some (ArrayObj elems) \<Longrightarrow>
   nodesAt 1 (h[c := ArrayObj (splice index b elems)]) [b] = Some [nb] \<Longrightarrow>
   treeAt n h arr = Some t \<Longrightarrow> distinct (cellsAt n h arr) \<Longrightarrow> findInArray n h i arr = Some (Some r) \<Longrightarrow>
   findBookmarkById i t = Some p \<Longrightarrow> b_children p = Some cs \<Longrightarrow>
   treeAt (Suc n) (h[c := ArrayObj (splice index b elems)]) arr
     = Some (updateFound i (setChildren (Some (splice index nb cs))) t)"
  "cellAt h r = Some (BookmarkObj ri rt ru rd rtg (Some c)) \<Longrightarrow> cellAt h c = Some (ArrayObj elems) \<Longrightarrow>
   nodesAt 1 (h[c := ArrayObj (splice index b elems)]) [b] = Some [nb] \<Longrightarrow>
   nodesAt n h as = Some ts \<Longrightarrow> distinct (cellsOf n h as) \<Longrightarrow> findInElems n h i as = Some (Some r) \<Longrightarrow>
   findBookmarkById i ts = Some p \<Longrightarrow> b_children p = Some cs \<Longrightarrow>
   nodesAt (Suc n) (h[c := ArrayObj (splice index b elems)]) as
     = Some (updateFound i (setChildren (Some (splice index nb cs))) ts)"
proof (induction n h i arr and n h i as arbitrary: t and ts rule: findInArray_findInElems.induct)
  case (1 h i arr)
  then show ?case by simp
next
  case (2 n h i arr)
  note cr = "2.prems"(1) and cc = "2.prems"(2) and nbh = "2.prems"(3) and tr = "2.prems"(4)
    and dist = "2.prems"(5) and f = "2.prems"(6) and fb = "2.prems"(7) and pc = "2.prems"(8)
  from tr obtain elems0 where c0: "cellAt h arr = Some (ArrayObj elems0)"
    and r0: "nodesAt n h elems0 = Some t"
    by (auto split: option.splits cell.splits)
  from f c0 have f0: "findInElems n h i elems0 = Some (Some r)" by simp
  from dist c0 have d0: "distinct (cellsOf n h elems0)" and na: "arr \<notin> set (cellsOf n h elems0)"
    by simp_all
  from findInArray_cells(2)[OF f0 cr] na have "arr \<noteq> c" by blast
  then have "cellAt (h[c := ArrayObj (splice index b elems)]) arr = Some (ArrayObj elems0)"
    using c0 by (simp add: cellAt_update)
  with "2.IH"[OF c0 refl cr cc nbh r0 d0 f0 fb pc] show ?case by simp
next
  case (3 n h i)
  then show ?case by simp
next
  case (4 n h i a as)
  note cr = "4.prems"(1) and cc = "4.prems"(2) and nbh = "4.prems"(3) and tr = "4.prems"(4)
    and dist = "4.prems"(5) and f = "4.prems"(6) and fb = "4.prems"(7) and pc = "4.prems"(8)
  let ?h' = "h[c := ArrayObj (splice index b elems)]"
  let ?f = "setChildren (Some (splice index nb cs))"
  from tr obtain bid tt u d tg ch children bs where
    c0: "cellAt h a = Some (BookmarkObj bid tt u d tg ch)"
    and k: "(case ch of None \<Rightarrow> Some None | Some ca \<Rightarrow> map_option Some (treeAt n h ca)) = Some children"
    and rr: "nodesAt n h as = Some bs" and ts: "ts = Bookmark bid tt u d tg children # bs"
    by (auto split: option.splits cell.splits)
  let ?kids = "case ch of None \<Rightarrow> [] | Some ca \<Rightarrow> cellsAt n h ca"
  have cells: "cellsOf n h (a # as) = a # ?kids @ cellsOf n h as"
    using c0 by (cases ch) simp_all
  from dist have da: "a \<notin> set ?kids" "a \<notin> set (cellsOf n h as)"
    and dk: "distinct ?kids" and ds: "distinct (cellsOf n h as)"
    and dd: "set ?kids \<inter> set (cellsOf n h as) = {}"
    unfolding cells by auto
  show ?case
  proof (cases "bid = i")
    case True
    with c0 f have ra: "r = a" by simp
    with c0 cr have ch: "ch = Some c" by simp
    with k obtain cs0 where tc: "treeAt n h c = Some cs0" and ch0: "children = Some cs0" by auto
    from fb ts True have "p = Bookmark bid tt u d tg children" by simp
    with pc ch0 have cs0: "cs0 = cs" by simp
    from tc obtain m where n: "n = Suc m" by (cases n) auto
    from tc cc have ne: "nodesAt m h elems = Some cs" unfolding n cs0 by simp
    have kc: "?kids = c # cellsOf m h elems" using ch cc n by simp
    from da dk dd have ac: "a \<noteq> c" and ce: "c \<notin> set (cellsOf m h elems)"
      and cs: "c \<notin> set (cellsOf n h as)"
      unfolding kc by auto
    from treeAt_update(2)[OF ce] ne have "nodesAt m ?h' elems = Some cs" by simp
    then have e1: "nodesAt (Suc m) ?h' elems = Some cs" by (rule treeAt_mono(2))
    from nbh have e2: "nodesAt (Suc m) ?h' [b] = Some [nb]" by (rule nodesAt_mono_le) simp
    from nodesAt_splice[OF e1 e2]
    have "nodesAt (Suc m) ?h' (splice index b elems) = Some (splice index nb cs)" .
    moreover have "cellAt ?h' c = Some (ArrayObj (splice index b elems))"
      using cc by (rule cellAt_update_eq)
    ultimately have t1: "treeAt (Suc n) ?h' c = Some (splice index nb cs)" unfolding n by simp
    from treeAt_update(2)[OF cs] rr have "nodesAt n ?h' as = Some bs" by simp
    then have t2: "nodesAt (Suc n) ?h' as = Some bs" by (rule treeAt_mono(2))
    have t3: "cellAt ?h' a = Some (BookmarkObj bid tt u d tg (Some c))"
      using c0 ch ac by (simp add: cellAt_update)
    from t1 t2 t3 have "nodesAt (Suc n) ?h' (a # as)
        = Some (Bookmark bid tt u d tg (Some (splice index nb cs)) # bs)" by simp
    moreover have "updateFound i ?f ts = Bookmark bid tt u d tg (Some (splice index nb cs)) # bs"
      using ts True by simp
    ultimately show ?thesis by simp
  next
    case False
    from f c0 False obtain res where
      s: "(case ch of None \<Rightarrow> Some None | Some ca \<Rightarrow> findInArray n h i ca) = Some res"
      by (auto split: option.splits)
    show ?thesis
    proof (cases res)
      case (Some r')
      with s c0 False f have rr': "r' = r" by simp
      from s Some obtain ca where ch: "ch = Some ca" and fa: "findInArray n h i ca = Some (Some r)"
        unfolding rr' by (auto split: option.splits)
      from k ch obtain cs0 where tc: "treeAt n h ca = Some cs0" and ch0: "children = Some cs0" by auto
      from findInArray_correct(1)[OF tc, of i] fa obtain p0 where fp: "findBookmarkById i cs0 = Some p0"
        by (cases "findBookmarkById i cs0") auto
      with fb ts False ch0 have fb0: "findBookmarkById i cs0 = Some p" by simp
      have dk0: "distinct (cellsAt n h ca)" using dk ch by simp
      from "4.IH"(1)[OF c0 refl False ch cr cc nbh tc dk0 fa fb0 pc]
      have t1: "treeAt (Suc n) ?h' ca = Some (updateFound i ?f cs0)" .
      from findInArray_cells(1)[OF fa cr] have ck: "c \<in> set ?kids" using ch by simp
      with da dd have ac: "a \<noteq> c" and cs: "c \<notin> set (cellsOf n h as)" by auto
      from treeAt_update(2)[OF cs] rr have "nodesAt n ?h' as = Some bs" by simp
      then have t2: "nodesAt (Suc n) ?h' as = Some bs" by (rule treeAt_mono(2))
      have t3: "cellAt ?h' a = Some (BookmarkObj bid tt u d tg (Some ca))"
        using c0 ch ac by (simp add: cellAt_update)
      from t1 t2 t3 have "nodesAt (Suc n) ?h' (a # as)
          = Some (Bookmark bid tt u d tg (Some (updateFound i ?f cs0)) # bs)" by simp
      moreover have "updateFound i ?f ts = Bookmark bid tt u d tg (Some (updateFound i ?f cs0)) # bs"
        using ts False ch0 fb0 by simp
      ultimately show ?thesis by simp
    next
      case None
      with s c0 False f have fs: "findInElems n h i as = Some (Some r)" by simp
      have nk: "(case children of None \<Rightarrow> None | Some cs0 \<Rightarrow> findBookmarkById i cs0) = None"
      proof (cases ch)
        case None
        with k show ?thesis by auto
      next
        case (Some ca)
        with k obtain cs0 where tc: "treeAt n h ca = Some cs0" and ch0: "children = Some cs0" by auto
        from s \<open>res = None\<close> Some have "findInArray n h i ca = Some None" by simp
        with findInArray_correct(1)[OF tc, of i] have "findBookmarkById i cs0 = None"
          by (cases "findBookmarkById i cs0") auto
        with ch0 show ?thesis by simp
      qed
      with fb ts False have fbs: "findBookmarkById i bs = Some p" by simp
      from "4.IH"(2)[OF c0 refl False s None cr cc nbh rr ds fs fbs pc]
      have t2: "nodesAt (Suc n) ?h' as = Some (updateFound i ?f bs)" .
      from findInArray_cells(2)[OF fs cr] have cin: "c \<in> set (cellsOf n h as)" .
      with da dd have ac: "a \<noteq> c" and ck: "c \<notin> set ?kids" by auto
      have t1: "(case ch of None \<Rightarrow> Some None | Some ca \<Rightarrow> map_option Some (treeAt (Suc n) ?h' ca))
                  = Some children"
      proof (cases ch)
        case None
        with k show ?thesis by simp
      next
        case (Some ca)
        with k obtain cs0 where tc: "treeAt n h ca = Some cs0" and ch0: "children = Some cs0" by auto
        from ck Some have "c \<notin> set (cellsAt n h ca)" by simp
        from treeAt_update(1)[OF this] tc have "treeAt n ?h' ca = Some cs0" by simp
        then have "treeAt (Suc n) ?h' ca = Some cs0" by (rule treeAt_mono(1))
        with Some ch0 show ?thesis by simp
      qed
      have t3: "cellAt ?h' a = Some (BookmarkObj bid tt u d tg ch)"
        using c0 ac by (simp add: cellAt_update)
      from t1 t2 t3 have "nodesAt (Suc n) ?h' (a # as)
          = Some (Bookmark bid tt u d tg children # updateFound i ?f bs)" by simp
      moreover have "updateFound i ?f ts = Bookmark bid tt u d tg children # updateFound i ?f bs"
        using ts False nk by (cases children) simp_all
      ultimately show ?thesis by simp
    qed
  qed
qed


lemma newBookmarkH_node:
  assumes "newBookmarkH ident md h1 = (b, h2)" and "c < length h1"
  shows "take (length h1) h2 = h1"
    and "nodesAt 1 (h2[c := x]) [b]
           = Some [newBookmark ident (m_title md) (m_url md) (m_description md) (m_tags md)
                     (m_isSeparator md)]"
  using assms
  by (auto simp: newBookmarkH_def alloc_def newBookmark_def cellAt_def nth_append
           nth_list_update split: if_splits option.splits)

lemma addBookmarkH_refines:
  assumes t: "treeAt n h bookmarks = Some t" and ok: "addBookmark md parentId index t = Inr res"
  shows "\<exists>b u h'. addBookmarkH n (getNewBookmarkId t []) md parentId index bookmarks h
                     = (Some (Inr (b, u)), h')
           \<and> treeAt (Suc n) h' u = Some (r_bookmarks res) \<and> nodesAt 1 h' [b] = Some [r_bookmark res]"
proof -
  let ?ident = "getNewBookmarkId t []"
  let ?nb = "newBookmark ?ident (m_title md) (m_url md) (m_description md) (m_tags md) (m_isSeparator md)"
  from angular_copy_correct(1)[OF t] obtain u h1 where
    cp: "angular_copy n h bookmarks = Some (u, h1)" and t1: "treeAt n h1 u = Some t" by blast
  from angular_copy_shape(1)[OF t cp] have d1: "distinct (cellsAt n h1 u)" by simp
  from ok obtain p cs where fb: "findBookmarkById parentId t = Some p" and pc: "b_children p = Some cs"
    and res: "r_bookmark res = ?nb"
      "r_bookmarks res = updateFound parentId (setChildren (Some (splice index ?nb cs))) t"
    by (auto simp: addBookmark_def Let_def split: option.splits)
  from findInArray_correct(1)[OF t1, of parentId] fb obtain a m where
    f: "findInArray n h1 parentId u = Some (Some a)" and na: "nodesAt m h1 [a] = Some [p]" by blast
  from na obtain i tt u' d tg ch children where
    c: "cellAt h1 a = Some (BookmarkObj i tt u' d tg ch)"
    and k: "(case ch of None \<Rightarrow> Some None | Some ca \<Rightarrow> map_option Some (treeAt m h1 ca)) = Some children"
    and p: "p = Bookmark i tt u' d tg children"
    by (auto split: option.splits cell.splits)
  from p pc have "children = Some cs" by simp
  with k obtain ca where ch: "ch = Some ca" and tc: "treeAt m h1 ca = Some cs"
    by (cases ch) auto
  from treeAt_Some_cell[OF tc] obtain elems where ce: "cellAt h1 ca = Some (ArrayObj elems)" by blast
  then have lt: "ca < length h1" by (auto simp: cellAt_def split: if_splits)
  obtain b h2 where nb: "newBookmarkH ?ident md h1 = (b, h2)" by (cases "newBookmarkH ?ident md h1")
  let ?h' = "h2[ca := ArrayObj (splice index b elems)]"
  from newBookmarkH_node[OF nb lt] have ex: "take (length h1) h2 = h1"
    and nbh: "nodesAt 1 ?h' [b] = Some [?nb]" by auto
  from cellAt_prefix[OF ex c] ch have c2: "cellAt h2 a = Some (BookmarkObj i tt u' d tg (Some ca))"
    by simp
  from cellAt_prefix[OF ex ce] have ce2: "cellAt h2 ca = Some (ArrayObj elems)" .
  from treeAt_prefix(1)[OF ex t1] have t2: "treeAt n h2 u = Some t" .
  from cellsAt_prefix(1)[OF ex t1] d1 have d2: "distinct (cellsAt n h2 u)" by simp
  from findInArray_prefix(1)[OF ex f] have f2: "findInArray n h2 parentId u = Some (Some a)" .
  from splice_in_store(1)[OF c2 ce2 nbh t2 d2 f2 fb pc]
  have "treeAt (Suc n) ?h' u = Some (r_bookmarks res)" using res by simp
  moreover have "addBookmarkH n ?ident md parentId index bookmarks h = (Some (Inr (b, u)), ?h')"
    using cp f nb c2 ce2 by (simp add: addBookmarkH_def)
  ultimately show ?thesis using nbh res by auto
qed

text \<open>
  C8. \<open>addBookmark\<close> never mutates the array passed to it, and it returns a complete
  replacement tree. Whatever the metadata, parent id, index and store, and whether the
  call succeeds, fails with \<open>BookmarkNotFoundException\<close> or fails otherwise, every cell
  that existed before the call is unchanged after it, so the tree read from the array
  passed in is the same before and after; on success the tree and the bookmark returned
  are newly allocated. When the array holds a tree that the fuel suffices to read, the
  fuel suffices for the call: where \<open>addBookmark\<close> fails on that tree the call fails with
  the same error, and where it succeeds the call succeeds, the array returned holds the
  whole tree that \<open>addBookmark\<close> computes (the tree passed in with the new bookmark
  spliced into the children of the parent), the bookmark returned is the new bookmark,
  and the array passed in still holds the tree it held. The new bookmark may be a folder
  with its own array of children, so reading the returned tree takes one more unit of
  fuel.
\<close>

theorem addBookmarkH_replaces_without_mutating:
  "take (length h) (snd (addBookmarkH fuel ident md parentId index bookmarks h)) = h
   \<and> (treeAt n h bookmarks = Some t
        \<longrightarrow> treeAt n (snd (addBookmarkH fuel ident md parentId index bookmarks h)) bookmarks = Some t)
   \<and> (fst (addBookmarkH fuel ident md parentId index bookmarks h) = Some (Inr (bookmark, updatedBookmarks))
        \<longrightarrow> length h \<le> bookmark \<and> length h \<le> updatedBookmarks)
   \<and> (treeAt fuel h bookmarks = Some t
        \<longrightarrow> (case addBookmark md parentId index t of
               Inl e \<Rightarrow> fst (addBookmarkH fuel (getNewBookmarkId t []) md parentId index bookmarks h)
                          = Some (Inl e)
             | Inr res \<Rightarrow>
                 (\<exists>b u h'. addBookmarkH fuel (getNewBookmarkId t []) md parentId index bookmarks h
                              = (Some (Inr (b, u)), h')
                    \<and> treeAt (Suc fuel) h' u = Some (r_bookmarks res)
                    \<and> nodesAt 1 h' [b] = Some [r_bookmark res]
                    \<and> treeAt fuel h' bookmarks = Some t)))"
proof (intro conjI impI)
  show f: "take (length h) (snd (addBookmarkH fuel ident md parentId index bookmarks h)) = h"
    by (rule addBookmarkH_frame)
  show "treeAt n (snd (addBookmarkH fuel ident md parentId index bookmarks h)) bookmarks = Some t"
    if "treeAt n h bookmarks = Some t"
    using f that by (rule treeAt_prefix(1))
  show "length h \<le> bookmark" "length h \<le> updatedBookmarks"
    if "fst (addBookmarkH fuel ident md parentId index bookmarks h) = Some (Inr (bookmark, updatedBookmarks))"
    using addBookmarkH_result_fresh[OF that] by simp_all
  show "case addBookmark md parentId index t of
          Inl e \<Rightarrow> fst (addBookmarkH fuel (getNewBookmarkId t []) md parentId index bookmarks h)
                     = Some (Inl e)
        | Inr res \<Rightarrow>
            (\<exists>b u h'. addBookmarkH fuel (getNewBookmarkId t []) md parentId index bookmarks h
                         = (Some (Inr (b, u)), h')
               \<and> treeAt (Suc fuel) h' u = Some (r_bookmarks res)
               \<and> nodesAt 1 h' [b] = Some [r_bookmark res]
               \<and> treeAt fuel h' bookmarks = Some t)"
    if tr: "treeAt fuel h bookmarks = Some t"
  proof (cases "addBookmark md parentId index t")
    case (Inl e)
    with addBookmarkH_agrees[OF tr, where md = md and parentId = parentId and index = index
           and ident = "getNewBookmarkId t []"]
    show ?thesis by simp
  next
    case (Inr res)
    from addBookmarkH_refines[OF tr Inr] obtain b u h' where
      r: "addBookmarkH fuel (getNewBookmarkId t []) md parentId index bookmarks h = (Some (Inr (b, u)), h')"
      and t': "treeAt (Suc fuel) h' u = Some (r_bookmarks res)" "nodesAt 1 h' [b] = Some [r_bookmark res]"
      by blast
    have "take (length h) (snd (addBookmarkH fuel (getNewBookmarkId t []) md parentId index bookmarks h)) = h"
      by (rule addBookmarkH_frame)
    with r have "take (length h) h' = h" by simp
    from treeAt_prefix(1)[OF this tr] have "treeAt fuel h' bookmarks = Some t" .
    with r t' Inr show ?thesis by auto
  qed
qed

theorem addBookmarkH_replaces_without_mutating_witness:
  "treeAt 4 [ArrayObj [1], BookmarkObj 1 (Some ''other'') None None None (Some 2), ArrayObj [3],
      BookmarkObj 2 (Some ''x'') (Some ''http://x'') None None None] 0
     = Some [Bookmark 1 (Some ''other'') None None None
              (Some [Bookmark 2 (Some ''x'') (Some ''http://x'') None None None])]
   \<and> addBookmark \<lparr>m_title = Some ''Example'', m_url = Some ''http://example.com'',
        m_description = None, m_tags = None, m_isSeparator = False\<rparr> 1 0
       [Bookmark 1 (Some ''other'') None None None
              (Some [Bookmark 2 (Some ''x'') (Some ''http://x'') None None None])]
     = Inr \<lparr>r_bookmark = Bookmark 3 (Some ''Example'') (Some ''http://example.com'') None None None,
            r_bookmarks = [Bookmark 1 (Some ''other'') None None None
              (Some [Bookmark 3 (Some ''Example'') (Some ''http://example.com'') None None None,
                     Bookmark 2 (Some ''x'') (Some ''http://x'') None None None])]\<rparr>
   \<and> addBookmarkH 4 3 \<lparr>m_title = Some ''Example'', m_url = Some ''http://example.com'',
        m_description = None, m_tags = None, m_isSeparator = False\<rparr> 1 0 0
       [ArrayObj [1], BookmarkObj 1 (Some ''other'') None None None (Some 2), ArrayObj [3],
      BookmarkObj 2 (Some ''x'') (Some ''http://x'') None None None]
     = (Some (Inr (8, 7)),
        [ArrayObj [1], BookmarkObj 1 (Some ''other'') None None None (Some 2), ArrayObj [3],
      BookmarkObj 2 (Some ''x'') (Some ''http://x'') None None None,
         BookmarkObj 2 (Some ''x'') (Some ''http://x'') None None None, ArrayObj [8, 4],
       BookmarkObj 1 (Some ''other'') None None None (Some 5), ArrayObj [6],
         BookmarkObj 3 (Some ''Example'') (Some ''http://example.com'') None None None])
   \<and> treeAt 4 [ArrayObj [1], BookmarkObj 1 (Some ''other'') None None None (Some 2), ArrayObj [3],
      BookmarkObj 2 (Some ''x'') (Some ''http://x'') None None None,
         BookmarkObj 2 (Some ''x'') (Some ''http://x'') None None None, ArrayObj [8, 4],
       BookmarkObj 1 (Some ''other'') None None None (Some 5), ArrayObj [6],
         BookmarkObj 3 (Some ''Example'') (Some ''http://example.com'') None None None] 0
     = Some [Bookmark 1 (Some ''other'') None None None
              (Some [Bookmark 2 (Some ''x'') (Some ''http://x'') None None None])]
   \<and> treeAt 5 [ArrayObj [1], BookmarkObj 1 (Some ''other'') None None None (Some 2), ArrayObj [3],
      BookmarkObj 2 (Some ''x'') (Some ''http://x'') None None None,
         BookmarkObj 2 (Some ''x'') (Some ''http://x'') None None None, ArrayObj [8, 4],
       BookmarkObj 1 (Some ''other'') None None None (Some 5), ArrayObj [6],
         BookmarkObj 3 (Some ''Example'') (Some ''http://example.com'') None None None] 7
     = Some [Bookmark 1 (Some ''other'') None None None
              (Some [Bookmark 3 (Some ''Example'') (Some ''http://example.com'') None None None,
                     Bookmark 2 (Some ''x'') (Some ''http://x'') None None None])]
   \<and> nodesAt 1 [ArrayObj [1], BookmarkObj 1 (Some ''other'') None None None (Some 2), ArrayObj [3],
      BookmarkObj 2 (Some ''x'') (Some ''http://x'') None None None,
         BookmarkObj 2 (Some ''x'') (Some ''http://x'') None None None, ArrayObj [8, 4],
       BookmarkObj 1 (Some ''other'') None None None (Some 5), ArrayObj [6],
         BookmarkObj 3 (Some ''Example'') (Some ''http://example.com'') None None None] [8]
     = Some [Bookmark 3 (Some ''Example'') (Some ''http://example.com'') None None None]
   \<and> addBookmark \<lparr>m_title = Some ''Example'', m_url = Some ''http://example.com'',
        m_description = None, m_tags = None, m_isSeparator = False\<rparr> 9 0
       [Bookmark 1 (Some ''other'') None None None
              (Some [Bookmark 2 (Some ''x'') (Some ''http://x'') None None None])]
     = Inl BookmarkNotFoundException
   \<and> addBookmarkH 4 3 \<lparr>m_title = Some ''Example'', m_url = Some ''http://example.com'',
        m_description = None, m_tags = None, m_isSeparator = False\<rparr> 9 0 0
       [ArrayObj [1], BookmarkObj 1 (Some ''other'') None None None (Some 2), ArrayObj [3],
      BookmarkObj 2 (Some ''x'') (Some ''http://x'') None None None]
     = (Some (Inl BookmarkNotFoundException),
        [ArrayObj [1], BookmarkObj 1 (Some ''other'') None None None (Some 2), ArrayObj [3],
      BookmarkObj 2 (Some ''x'') (Some ''http://x'') None None None,
         BookmarkObj 2 (Some ''x'') (Some ''http://x'') None None None, ArrayObj [4],
       BookmarkObj 1 (Some ''other'') None None None (Some 5), ArrayObj [6]])
   \<and> treeAt 4 [ArrayObj [1], BookmarkObj 1 (Some ''other'') None None None (Some 2), ArrayObj [3],
      BookmarkObj 2 (Some ''x'') (Some ''http://x'') None None None,
         BookmarkObj 2 (Some ''x'') (Some ''http://x'') None None None, ArrayObj [4],
       BookmarkObj 1 (Some ''other'') None None None (Some 5), ArrayObj [6]] 0
     = Some [Bookmark 1 (Some ''other'') None None None
              (Some [Bookmark 2 (Some ''x'') (Some ''http://x'') None None None])]"
  using addBookmarkH_replaces_without_mutating
          [of "[ArrayObj [1], BookmarkObj 1 (Some ''other'') None None None (Some 2), ArrayObj [3],
      BookmarkObj 2 (Some ''x'') (Some ''http://x'') None None None]" 4 3 "\<lparr>m_title = Some ''Example'', m_url = Some ''http://example.com'',
        m_description = None, m_tags = None, m_isSeparator = False\<rparr>" 1 0 0 4
              "[Bookmark 1 (Some ''other'') None None None
              (Some [Bookmark 2 (Some ''x'') (Some ''http://x'') None None None])]" 8 7]
        addBookmarkH_replaces_without_mutating
          [of "[ArrayObj [1], BookmarkObj 1 (Some ''other'') None None None (Some 2), ArrayObj [3],
      BookmarkObj 2 (Some ''x'') (Some ''http://x'') None None None]" 4 3 "\<lparr>m_title = Some ''Example'', m_url = Some ''http://example.com'',
        m_description = None, m_tags = None, m_isSeparator = False\<rparr>" 9 0 0 4
              "[Bookmark 1 (Some ''other'') None None None
              (Some [Bookmark 2 (Some ''x'') (Some ''http://x'') None None None])]"]
  by (simp add: addBookmarkH_def cellAt_def alloc_def newBookmarkH_def splice_def spliceStart_def
        addBookmark_def getNewBookmarkId_def newBookmark_def Let_def eval_nat_numeral)

end
